theory Spec2Isabelle
  imports Complex_Main "HOL-Library.AList"
begin

section \<open>Python values\<close>

text \<open>
  The backend (\<^verbatim>\<open>src/backend/app.py\<close>) is a Flask application over an SQLite
  database. Its handlers read JSON request bodies, so the values they see are the
  values Python's \<^verbatim>\<open>json\<close> module produces. A JSON number with a fraction or an
  exponent is a Python float; the model carries the exact rational value of a finite
  float (every finite double is a rational number) and the three special values
  that \<^verbatim>\<open>json.loads\<close> accepts. Strings are ASCII text: the behaviour of
  \<^verbatim>\<open>str.strip\<close>, \<^verbatim>\<open>str.lower\<close> and \<^verbatim>\<open>int\<close> on characters beyond ASCII is
  not modelled.
\<close>

datatype pyfloat = Finite rat | PosInf | NegInf | NaN

datatype json =
    JNull
  | JBool bool
  | JInt int
  | JFloat pyfloat
  | JStr string
  | JList "json list"
  | JObj "(string \<times> json) list"

text \<open>
  The exceptions that the modelled code can raise. An exception that no handler
  catches reaches Flask, which answers with HTTP 500.
\<close>

datatype exn =
    ValueError
  | TypeError
  | OverflowError
  | IndexError
  | IntegrityError
  | DecodeError
  | InvalidAlgorithmError
  | InvalidSignatureError
  | ExpiredSignatureError
  | ImmatureSignatureError
  | InvalidIssuedAtError
  | InvalidAudienceError
  | InvalidSubjectError
  | InvalidJTIError

text \<open>Truth value testing: \<^verbatim>\<open>bool(x)\<close>, as used by \<^verbatim>\<open>not x\<close> and \<^verbatim>\<open>x or y\<close>.\<close>

fun truthy :: "json \<Rightarrow> bool" where
  "truthy JNull = False"
| "truthy (JBool b) = b"
| "truthy (JInt n) = (n \<noteq> 0)"
| "truthy (JFloat f) = (f \<noteq> Finite 0)"
| "truthy (JStr s) = (s \<noteq> [])"
| "truthy (JList xs) = (xs \<noteq> [])"
| "truthy (JObj kvs) = (kvs \<noteq> [])"

text \<open>\<^verbatim>\<open>d.get(k)\<close> on a dict: the value, or \<^verbatim>\<open>None\<close>.\<close>

definition dict_get :: "(string \<times> json) list \<Rightarrow> string \<Rightarrow> json" where
  "dict_get d k = (case map_of d k of None \<Rightarrow> JNull | Some v \<Rightarrow> v)"

text \<open>\<^verbatim>\<open>x or y\<close>.\<close>

definition py_or :: "json \<Rightarrow> json \<Rightarrow> json" where
  "py_or x y = (if truthy x then x else y)"

subsection \<open>Strings\<close>

text \<open>
  \<^verbatim>\<open>str.isspace\<close> on ASCII: tab, line feed, vertical tab, form feed, carriage
  return, the four separators 0x1C..0x1F and the space.
\<close>

definition is_space :: "char \<Rightarrow> bool" where
  "is_space c = (let n = (of_char c :: nat) in (9 \<le> n \<and> n \<le> 13) \<or> (28 \<le> n \<and> n \<le> 32))"

text \<open>\<^verbatim>\<open>s.strip()\<close>.\<close>

definition strip :: "string \<Rightarrow> string" where
  "strip s = rev (dropWhile is_space (rev (dropWhile is_space s)))"

definition lower_char :: "char \<Rightarrow> char" where
  "lower_char c = (let n = (of_char c :: nat) in if 65 \<le> n \<and> n \<le> 90 then char_of (n + 32) else c)"

text \<open>\<^verbatim>\<open>s.lower()\<close>.\<close>

definition lower :: "string \<Rightarrow> string" where
  "lower s = map lower_char s"

text \<open>\<^verbatim>\<open>s.startswith(p)\<close>.\<close>

definition startswith :: "string \<Rightarrow> string \<Rightarrow> bool" where
  "startswith s p = (take (length p) s = p)"

text \<open>
  \<^verbatim>\<open>s.split(sep, 1)\<close> for a one-character separator: the text before the first
  separator and the text after it, or the whole string when there is none.
\<close>

definition split1 :: "char \<Rightarrow> string \<Rightarrow> string list" where
  "split1 sep s =
     (if sep \<in> set s
      then [takeWhile (\<lambda>c. c \<noteq> sep) s, tl (dropWhile (\<lambda>c. c \<noteq> sep) s)]
      else [s])"

subsection \<open>Integers and their decimal text\<close>

definition is_digit :: "char \<Rightarrow> bool" where
  "is_digit c = (let n = (of_char c :: nat) in 48 \<le> n \<and> n \<le> 57)"

definition digit_val :: "char \<Rightarrow> nat" where
  "digit_val c = of_char c - 48"

definition digit_char :: "nat \<Rightarrow> char" where
  "digit_char n = char_of (48 + n)"

text \<open>\<^verbatim>\<open>str(n)\<close> for an integer: a minus sign when negative, then the decimal digits.\<close>

fun digits_of :: "nat \<Rightarrow> string" where
  "digits_of n = (if n < 10 then [digit_char n] else digits_of (n div 10) @ [digit_char (n mod 10)])"

declare digits_of.simps [simp del]

definition str_int :: "int \<Rightarrow> string" where
  "str_int i = (if i < 0 then CHR ''-'' # digits_of (nat (- i)) else digits_of (nat i))"

text \<open>
  The digits of an integer literal as \<^verbatim>\<open>int(str)\<close> reads them: decimal digits, with
  single underscores allowed between two digits. The accumulator holds the value of
  the digits read so far.
\<close>

fun parse_digits :: "nat \<Rightarrow> string \<Rightarrow> nat option" where
  "parse_digits acc [] = Some acc"
| "parse_digits acc [c] = (if is_digit c then Some (10 * acc + digit_val c) else None)"
| "parse_digits acc (c # d # ds) =
     (if c = CHR ''_'' then
        (if is_digit d then parse_digits (10 * acc + digit_val d) ds else None)
      else if is_digit c then parse_digits (10 * acc + digit_val c) (d # ds)
      else None)"

definition parse_nat :: "string \<Rightarrow> nat option" where
  "parse_nat s = (case s of [] \<Rightarrow> None
                  | c # cs \<Rightarrow> if is_digit c then parse_digits (digit_val c) cs else None)"

text \<open>
  \<^verbatim>\<open>int(s)\<close> for a string: surrounding whitespace is dropped, one sign is allowed,
  anything else that is not a digit sequence raises \<^verbatim>\<open>ValueError\<close>. (CPython from
  3.11 on also refuses more than 4300 digits; no identifier of this program is that
  long, and the limit is not modelled.)
\<close>

definition int_of_str :: "string \<Rightarrow> exn + int" where
  "int_of_str s =
     (case strip s of
        [] \<Rightarrow> Inl ValueError
      | c # cs \<Rightarrow>
          if c = CHR ''-'' then (case parse_nat cs of None \<Rightarrow> Inl ValueError | Some n \<Rightarrow> Inr (- int n))
          else if c = CHR ''+'' then (case parse_nat cs of None \<Rightarrow> Inl ValueError | Some n \<Rightarrow> Inr (int n))
          else (case parse_nat (c # cs) of None \<Rightarrow> Inl ValueError | Some n \<Rightarrow> Inr (int n)))"

text \<open>\<^verbatim>\<open>int(x)\<close> for a float: truncation towards zero.\<close>

definition trunc :: "rat \<Rightarrow> int" where
  "trunc q = (if 0 \<le> q then \<lfloor>q\<rfloor> else \<lceil>q\<rceil>)"

text \<open>\<^verbatim>\<open>int(x)\<close> on a value that came out of a JSON document.\<close>

fun py_int :: "json \<Rightarrow> exn + int" where
  "py_int JNull = Inl TypeError"
| "py_int (JBool b) = Inr (if b then 1 else 0)"
| "py_int (JInt n) = Inr n"
| "py_int (JFloat (Finite q)) = Inr (trunc q)"
| "py_int (JFloat PosInf) = Inl OverflowError"
| "py_int (JFloat NegInf) = Inl OverflowError"
| "py_int (JFloat NaN) = Inl ValueError"
| "py_int (JStr s) = int_of_str s"
| "py_int (JList xs) = Inl TypeError"
| "py_int (JObj kvs) = Inl TypeError"

section \<open>The environment: configuration and libraries\<close>

text \<open>
  The program calls two libraries whose code is not part of the repository: PyJWT
  (\<^verbatim>\<open>jwt.encode\<close>, \<^verbatim>\<open>jwt.decode\<close>) and Werkzeug's password hashing. The parts of
  them that compute bytes (HMAC-SHA256, the base64url/JSON wire format of a token,
  the salted password hash) are parameters of the model; what PyJWT checks on top
  of them is written out below.

  A decoded token is the header's \<^verbatim>\<open>alg\<close> entry, the payload object, the text
  that was signed and the signature. \<open>jwt_segments\<close> stands for splitting a token at
  its dots and decoding the three segments; it yields \<open>None\<close> where PyJWT raises
  \<^verbatim>\<open>DecodeError\<close> (too few segments, bad padding, a header or payload that is not
  a JSON object).
\<close>

record jws =
  jws_alg :: json
  jws_payload :: "(string \<times> json) list"
  jws_signing_input :: string
  jws_signature :: string

record env =
  JWT_SECRET :: string
  hmac_sha256 :: "string \<Rightarrow> string \<Rightarrow> string"
  jwt_signing_input :: "string \<Rightarrow> (string \<times> json) list \<Rightarrow> string"
  jwt_compact :: "string \<Rightarrow> string \<Rightarrow> string"
  jwt_segments :: "string \<Rightarrow> jws option"
  generate_password_hash :: "string \<Rightarrow> string \<Rightarrow> string"
  check_password_hash :: "string \<Rightarrow> string \<Rightarrow> bool"

definition JWT_ALGO :: string where
  "JWT_ALGO = ''HS256''"

text \<open>
  \<^verbatim>\<open>jwt.encode(payload, key, algorithm)\<close>: the header and payload are encoded, the
  result is signed, and the three parts are joined.
\<close>

definition jwt_encode :: "env \<Rightarrow> (string \<times> json) list \<Rightarrow> string \<Rightarrow> string \<Rightarrow> string" where
  "jwt_encode E payload key algorithm =
     (let signing_input = jwt_signing_input E algorithm payload
      in jwt_compact E signing_input (hmac_sha256 E key signing_input))"

text \<open>
  The registered claims as PyJWT (2.10) validates them with its default options
  and no expected audience, issuer or subject. The clock is in whole seconds:
  the claims are integers, so comparing them with the fractional clock of the
  library and with its integer part gives the same answer. Each check yields the
  exception it raises, if any.
\<close>

definition claim_int :: "exn \<Rightarrow> json \<Rightarrow> exn + int" where
  "claim_int err v = (case py_int v of Inl e \<Rightarrow> Inl (if e = ValueError then err else e) | Inr n \<Rightarrow> Inr n)"

definition validate_iat :: "int \<Rightarrow> (string \<times> json) list \<Rightarrow> exn option" where
  "validate_iat now payload =
     (case map_of payload ''iat'' of
        None \<Rightarrow> None
      | Some v \<Rightarrow> (case claim_int InvalidIssuedAtError v of
                    Inl e \<Rightarrow> Some e
                  | Inr iat \<Rightarrow> if iat > now then Some ImmatureSignatureError else None))"

definition validate_nbf :: "int \<Rightarrow> (string \<times> json) list \<Rightarrow> exn option" where
  "validate_nbf now payload =
     (case map_of payload ''nbf'' of
        None \<Rightarrow> None
      | Some v \<Rightarrow> (case claim_int DecodeError v of
                    Inl e \<Rightarrow> Some e
                  | Inr nbf \<Rightarrow> if nbf > now then Some ImmatureSignatureError else None))"

definition validate_exp :: "int \<Rightarrow> (string \<times> json) list \<Rightarrow> exn option" where
  "validate_exp now payload =
     (case map_of payload ''exp'' of
        None \<Rightarrow> None
      | Some v \<Rightarrow> (case claim_int DecodeError v of
                    Inl e \<Rightarrow> Some e
                  | Inr exp' \<Rightarrow> if exp' \<le> now then Some ExpiredSignatureError else None))"

definition validate_aud :: "(string \<times> json) list \<Rightarrow> exn option" where
  "validate_aud payload =
     (case map_of payload ''aud'' of
        None \<Rightarrow> None
      | Some v \<Rightarrow> if truthy v then Some InvalidAudienceError else None)"

definition validate_sub :: "(string \<times> json) list \<Rightarrow> exn option" where
  "validate_sub payload =
     (case map_of payload ''sub'' of
        None \<Rightarrow> None
      | Some (JStr s) \<Rightarrow> None
      | Some v \<Rightarrow> Some InvalidSubjectError)"

definition validate_jti :: "(string \<times> json) list \<Rightarrow> exn option" where
  "validate_jti payload =
     (case map_of payload ''jti'' of
        None \<Rightarrow> None
      | Some (JStr s) \<Rightarrow> None
      | Some v \<Rightarrow> Some InvalidJTIError)"

fun first_error :: "exn option list \<Rightarrow> exn option" where
  "first_error [] = None"
| "first_error (None # cs) = first_error cs"
| "first_error (Some e # cs) = Some e"

definition validate_claims :: "int \<Rightarrow> (string \<times> json) list \<Rightarrow> exn option" where
  "validate_claims now payload =
     first_error [validate_iat now payload, validate_nbf now payload, validate_exp now payload,
                  validate_aud payload, validate_sub payload, validate_jti payload]"

text \<open>
  \<^verbatim>\<open>jwt.decode(token, key, algorithms=[...])\<close> at clock \<open>now\<close>: the payload, or the
  exception raised. The program only ever allows \<^verbatim>\<open>HS256\<close>, so the signature
  is checked with HMAC-SHA256.
\<close>

definition jwt_decode :: "env \<Rightarrow> int \<Rightarrow> string \<Rightarrow> string \<Rightarrow> string list \<Rightarrow> exn + (string \<times> json) list" where
  "jwt_decode E now token key algorithms =
     (case jwt_segments E token of
        None \<Rightarrow> Inl DecodeError
      | Some j \<Rightarrow>
          if \<not> truthy (jws_alg j) \<or> jws_alg j \<notin> set (map JStr algorithms) then Inl InvalidAlgorithmError
          else if jws_signature j \<noteq> hmac_sha256 E key (jws_signing_input j) then Inl InvalidSignatureError
          else (case validate_claims now (jws_payload j) of
                  Some e \<Rightarrow> Inl e
                | None \<Rightarrow> Inr (jws_payload j)))"

section \<open>Tokens\<close>

text \<open>
  \<^verbatim>\<open>make_token(user_id, expires_minutes=60*24*7)\<close> at clock \<open>now\<close> (whole seconds
  since the epoch; \<^verbatim>\<open>jwt.encode\<close> turns the expiry date into that integer).
\<close>

definition make_token :: "env \<Rightarrow> int \<Rightarrow> int \<Rightarrow> int \<Rightarrow> string" where
  "make_token E now user_id expires_minutes =
     (let exp' = now + 60 * expires_minutes;
          payload = [(''sub'', JStr (str_int user_id)), (''exp'', JInt exp')]
      in jwt_encode E payload (JWT_SECRET E) JWT_ALGO)"

text \<open>
  \<^verbatim>\<open>verify_token(token)\<close>: both \<^verbatim>\<open>try\<close> blocks catch every exception and return
  \<^verbatim>\<open>None\<close>.
\<close>

definition verify_token :: "env \<Rightarrow> int \<Rightarrow> string \<Rightarrow> int option" where
  "verify_token E now token =
     (case jwt_decode E now token (JWT_SECRET E) [JWT_ALGO] of
        Inl e \<Rightarrow> None
      | Inr payload \<Rightarrow>
          (let sub = dict_get payload ''sub''
           in case py_int sub of Inl e \<Rightarrow> None | Inr n \<Rightarrow> Some n))"

section \<open>The database\<close>

text \<open>
  The three tables of \<^verbatim>\<open>src/backend/db_init.py\<close>, each a list of rows in insertion
  order. \<^verbatim>\<open>CURRENT_TIMESTAMP\<close> is kept as the clock value, not as its text.
\<close>

record user_row =
  u_id :: int
  u_username :: string
  u_email :: string
  u_password_hash :: string
  u_points :: int
  u_created_at :: int

record completion_row =
  c_id :: int
  c_user_id :: int
  c_course_id :: string
  c_completed_at :: int

record rating_row =
  r_id :: int
  r_user_id :: int
  r_course_id :: string
  r_rating :: int
  r_created_at :: int

record db =
  users :: "user_row list"
  completions :: "completion_row list"
  ratings :: "rating_row list"

text \<open>\<^verbatim>\<open>init_db()\<close> on a fresh file: three empty tables.\<close>

definition init_db :: db where
  "init_db = \<lparr>users = [], completions = [], ratings = []\<rparr>"

text \<open>
  The key SQLite gives a new row of an \<^verbatim>\<open>INTEGER PRIMARY KEY AUTOINCREMENT\<close>
  table: one more than the largest key so far, 1 in an empty table. The program
  never deletes a row, so the largest key ever used is the largest key present.
\<close>

definition next_rowid :: "int list \<Rightarrow> int" where
  "next_rowid ids = fold max ids 0 + 1"

text \<open>
  Binding a Python integer to a statement parameter: SQLite integers are 64-bit,
  and the driver raises \<^verbatim>\<open>OverflowError\<close> beyond them.
\<close>

definition bind_int :: "int \<Rightarrow> exn + int" where
  "bind_int n = (if - (2 ^ 63) \<le> n \<and> n < 2 ^ 63 then Inr n else Inl OverflowError)"

text \<open>
  The row \<^verbatim>\<open>SELECT id, username, email, points FROM users\<close> yields: what the
  handlers keep as \<^verbatim>\<open>g.current_user\<close> and return as \<^verbatim>\<open>dict(user)\<close>.
\<close>

record user =
  cu_id :: int
  cu_username :: string
  cu_email :: string
  cu_points :: int

definition user_columns :: "user_row \<Rightarrow> user" where
  "user_columns u = \<lparr>cu_id = u_id u, cu_username = u_username u, cu_email = u_email u,
                      cu_points = u_points u\<rparr>"

definition user_dict :: "user \<Rightarrow> (string \<times> json) list" where
  "user_dict u = [(''id'', JInt (cu_id u)), (''username'', JStr (cu_username u)),
                  (''email'', JStr (cu_email u)), (''points'', JInt (cu_points u))]"

text \<open>\<^verbatim>\<open>SELECT id, username, email, points FROM users WHERE id = ?\<close>, first row.\<close>

definition select_user_by_id :: "db \<Rightarrow> int \<Rightarrow> user option" where
  "select_user_by_id d uid = map_option user_columns (find (\<lambda>u. u_id u = uid) (users d))"

text \<open>\<^verbatim>\<open>SELECT id FROM users WHERE email = ? OR username = ?\<close>, first row.\<close>

definition select_user_by_email_or_username :: "db \<Rightarrow> string \<Rightarrow> string \<Rightarrow> int option" where
  "select_user_by_email_or_username d em un =
     map_option u_id (find (\<lambda>u. u_email u = em \<or> u_username u = un) (users d))"

text \<open>
  \<^verbatim>\<open>SELECT id, username, email, password_hash, points FROM users WHERE email = ?\<close>,
  first row.
\<close>

definition select_user_by_email :: "db \<Rightarrow> string \<Rightarrow> user_row option" where
  "select_user_by_email d em = find (\<lambda>u. u_email u = em) (users d)"

text \<open>
  \<^verbatim>\<open>INSERT INTO users (username, email, password_hash) VALUES (?, ?, ?)\<close>, with the
  two \<^verbatim>\<open>UNIQUE\<close> constraints and the default of \<^verbatim>\<open>points\<close>; the new database and
  \<^verbatim>\<open>lastrowid\<close>.
\<close>

definition insert_user :: "db \<Rightarrow> string \<Rightarrow> string \<Rightarrow> string \<Rightarrow> int \<Rightarrow> exn + db \<times> int" where
  "insert_user d un em ph now =
     (if list_ex (\<lambda>u. u_username u = un \<or> u_email u = em) (users d) then Inl IntegrityError
      else let rowid = next_rowid (map u_id (users d))
           in Inr (d\<lparr>users := users d @
                     [\<lparr>u_id = rowid, u_username = un, u_email = em, u_password_hash = ph,
                       u_points = 0, u_created_at = now\<rparr>]\<rparr>, rowid))"

text \<open>\<^verbatim>\<open>SELECT id FROM completions WHERE user_id = ? AND course_id = ?\<close>, first row.\<close>

definition select_completion :: "db \<Rightarrow> int \<Rightarrow> string \<Rightarrow> int option" where
  "select_completion d uid cid =
     map_option c_id (find (\<lambda>c. c_user_id c = uid \<and> c_course_id c = cid) (completions d))"

text \<open>\<^verbatim>\<open>INSERT INTO completions (user_id, course_id) VALUES (?, ?)\<close>.\<close>

definition insert_completion :: "db \<Rightarrow> int \<Rightarrow> string \<Rightarrow> int \<Rightarrow> exn + db" where
  "insert_completion d uid cid now =
     (if list_ex (\<lambda>c. c_user_id c = uid \<and> c_course_id c = cid) (completions d) then Inl IntegrityError
      else Inr (d\<lparr>completions := completions d @
                  [\<lparr>c_id = next_rowid (map c_id (completions d)), c_user_id = uid,
                    c_course_id = cid, c_completed_at = now\<rparr>]\<rparr>))"

text \<open>\<^verbatim>\<open>UPDATE users SET points = points + ? WHERE id = ?\<close>.\<close>

definition update_points :: "db \<Rightarrow> int \<Rightarrow> int \<Rightarrow> db" where
  "update_points d amount uid =
     d\<lparr>users := map (\<lambda>u. if u_id u = uid then u\<lparr>u_points := u_points u + amount\<rparr> else u) (users d)\<rparr>"

text \<open>\<^verbatim>\<open>SELECT id FROM ratings WHERE user_id = ? AND course_id = ?\<close>, first row.\<close>

definition select_rating :: "db \<Rightarrow> int \<Rightarrow> string \<Rightarrow> int option" where
  "select_rating d uid cid =
     map_option r_id (find (\<lambda>r. r_user_id r = uid \<and> r_course_id r = cid) (ratings d))"

text \<open>\<^verbatim>\<open>UPDATE ratings SET rating = ?, created_at = CURRENT_TIMESTAMP WHERE id = ?\<close>.\<close>

definition update_rating :: "db \<Rightarrow> int \<Rightarrow> int \<Rightarrow> int \<Rightarrow> exn + db" where
  "update_rating d rating rid now =
     (if list_ex (\<lambda>r. r_id r = rid) (ratings d) \<and> (rating < 1 \<or> rating > 5) then Inl IntegrityError
      else Inr (d\<lparr>ratings := map (\<lambda>r. if r_id r = rid then r\<lparr>r_rating := rating, r_created_at := now\<rparr> else r)
                                 (ratings d)\<rparr>))"

text \<open>
  \<^verbatim>\<open>INSERT INTO ratings (user_id, course_id, rating) VALUES (?, ?, ?)\<close>, with the
  \<^verbatim>\<open>CHECK\<close> and \<^verbatim>\<open>UNIQUE\<close> constraints.
\<close>

definition insert_rating :: "db \<Rightarrow> int \<Rightarrow> string \<Rightarrow> int \<Rightarrow> int \<Rightarrow> exn + db" where
  "insert_rating d uid cid rating now =
     (if rating < 1 \<or> rating > 5 \<or> list_ex (\<lambda>r. r_user_id r = uid \<and> r_course_id r = cid) (ratings d)
      then Inl IntegrityError
      else Inr (d\<lparr>ratings := ratings d @
                  [\<lparr>r_id = next_rowid (map r_id (ratings d)), r_user_id = uid, r_course_id = cid,
                    r_rating = rating, r_created_at = now\<rparr>]\<rparr>))"

text \<open>
  \<^verbatim>\<open>SELECT AVG(rating) as avg_rating, COUNT(*) as count FROM ratings WHERE course_id = ?\<close>:
  always one row; the average is \<^verbatim>\<open>NULL\<close> when no rating matches. SQLite divides in
  floating point; the model keeps the exact quotient.
\<close>

definition select_avg_count :: "db \<Rightarrow> string \<Rightarrow> rat option \<times> int" where
  "select_avg_count d cid =
     (let rs = map r_rating (filter (\<lambda>r. r_course_id r = cid) (ratings d))
      in (if rs = [] then None else Some (of_int (sum_list rs) / of_int (int (length rs))),
          int (length rs)))"

definition json_of_avg :: "rat option \<Rightarrow> json" where
  "json_of_avg a = (case a of None \<Rightarrow> JNull | Some q \<Rightarrow> JFloat (Finite q))"

section \<open>Requests and responses\<close>

text \<open>
  A handler returns \<^verbatim>\<open>jsonify(body), status\<close> (status 200 when none is given) or
  raises; it also leaves the database in some state. The request bodies are typed
  after the interface of the spec: a text field is a string or absent (\<^verbatim>\<open>null\<close>
  counts as absent), while the rating is any JSON value, since the handler coerces
  it. The \<^verbatim>\<open>Authorization\<close> header is a string or absent.
\<close>

type_synonym response = "json \<times> nat"

type_synonym result = "exn + response"

record register_data =
  reg_username :: "string option"
  reg_email :: "string option"
  reg_password :: "string option"

record login_data =
  login_email :: "string option"
  login_password :: "string option"

record complete_data =
  complete_course_id :: "string option"

record rate_data =
  rate_course_id :: "string option"
  rate_rating :: json

text \<open>\<^verbatim>\<open>data.get(k) or ''\<close> for a text field.\<close>

definition or_empty :: "string option \<Rightarrow> string" where
  "or_empty v = (case v of None \<Rightarrow> [] | Some s \<Rightarrow> s)"

definition error_body :: "string \<Rightarrow> json" where
  "error_body msg = JObj [(''error'', JStr msg)]"

section \<open>The session guard\<close>

text \<open>
  \<^verbatim>\<open>auth_required(fn)\<close>: the wrapped handler runs with the user row the token
  resolves to; every other request is answered with 401.
\<close>

definition auth_required ::
  "env \<Rightarrow> int \<Rightarrow> (user \<Rightarrow> db \<Rightarrow> result \<times> db) \<Rightarrow> string option \<Rightarrow> db \<Rightarrow> result \<times> db" where
  "auth_required E now fn authorization d =
     (let auth = or_empty authorization;
          unauthorized = (Inr (error_body ''Unauthorized'', 401), d)
      in if startswith auth ''Bearer '' then
           (case split1 (CHR '' '') auth of
              [scheme, token] \<Rightarrow>
                (case verify_token E now token of
                   None \<Rightarrow> unauthorized
                 | Some user_id \<Rightarrow>
                     if user_id \<noteq> 0 then
                       (case bind_int user_id of
                          Inl e \<Rightarrow> (Inl e, d)
                        | Inr i \<Rightarrow>
                            (case select_user_by_id d i of
                               Some u \<Rightarrow> fn u d
                             | None \<Rightarrow> unauthorized))
                     else unauthorized)
            | _ \<Rightarrow> (Inl IndexError, d))
         else unauthorized)"

section \<open>The handlers\<close>

text \<open>\<^verbatim>\<open>register()\<close>, with the clock and the salt the hash function draws.\<close>

definition register :: "env \<Rightarrow> int \<Rightarrow> string \<Rightarrow> register_data \<Rightarrow> db \<Rightarrow> result \<times> db" where
  "register E now salt data d =
     (let username = strip (or_empty (reg_username data));
          email = lower (strip (or_empty (reg_email data)));
          password = or_empty (reg_password data)
      in if username = [] \<or> email = [] \<or> password = [] \<or> length password < 6 then
           (Inr (error_body ''Invalid input, provide username, email and password (min 6 chars)'', 400), d)
         else
           (case select_user_by_email_or_username d email username of
              Some existing \<Rightarrow>
                (Inr (error_body ''User with that email or username already exists'', 400), d)
            | None \<Rightarrow>
                (let password_hash = generate_password_hash E salt password
                 in case insert_user d username email password_hash now of
                      Inl e \<Rightarrow> (Inl e, d)
                    | Inr (d', user_id) \<Rightarrow>
                        (let token = make_token E now user_id (60 * 24 * 7)
                         in case select_user_by_id d' user_id of
                              None \<Rightarrow> (Inl TypeError, d')
                            | Some u \<Rightarrow>
                                (Inr (JObj [(''token'', JStr token), (''user'', JObj (user_dict u))], 200),
                                 d')))))"

text \<open>
  \<^verbatim>\<open>login()\<close>. The row it selects has the password hash among its columns; the
  response is built from every column but that one.
\<close>

definition login_row_dict :: "user_row \<Rightarrow> (string \<times> json) list" where
  "login_row_dict u = [(''id'', JInt (u_id u)), (''username'', JStr (u_username u)),
                       (''email'', JStr (u_email u)), (''password_hash'', JStr (u_password_hash u)),
                       (''points'', JInt (u_points u))]"

definition login :: "env \<Rightarrow> int \<Rightarrow> login_data \<Rightarrow> db \<Rightarrow> result \<times> db" where
  "login E now data d =
     (let email = lower (strip (or_empty (login_email data)));
          password = or_empty (login_password data)
      in if email = [] \<or> password = [] then
           (Inr (error_body ''Missing email/password'', 400), d)
         else
           (case select_user_by_email d email of
              None \<Rightarrow> (Inr (error_body ''Invalid credentials'', 401), d)
            | Some u \<Rightarrow>
                if \<not> check_password_hash E (u_password_hash u) password then
                  (Inr (error_body ''Invalid credentials'', 401), d)
                else
                  (let token = make_token E now (u_id u) (60 * 24 * 7)
                   in (Inr (JObj [(''token'', JStr token),
                                  (''user'', JObj (filter (\<lambda>(k, v). k \<noteq> ''password_hash'')
                                                          (login_row_dict u)))], 200), d))))"

text \<open>\<^verbatim>\<open>me()\<close>, inside the guard.\<close>

definition me :: "user \<Rightarrow> db \<Rightarrow> result \<times> db" where
  "me u d =
     (let completions' = filter (\<lambda>c. c_user_id c = cu_id u) (completions d);
          ratings' = filter (\<lambda>r. r_user_id r = cu_id u) (ratings d)
      in (Inr (JObj [(''user'', JObj (user_dict u)),
                     (''completions'',
                        JList (map (\<lambda>c. JObj [(''course_id'', JStr (c_course_id c)),
                                               (''completed_at'', JInt (c_completed_at c))]) completions')),
                     (''ratings'',
                        JList (map (\<lambda>r. JObj [(''course_id'', JStr (r_course_id r)),
                                               (''rating'', JInt (r_rating r))]) ratings'))], 200), d))"

text \<open>
  \<^verbatim>\<open>complete_course()\<close>, inside the guard. Each \<^verbatim>\<open>execute_db\<close> commits: the
  insert and the update are two transactions.
\<close>

definition complete_course :: "int \<Rightarrow> complete_data \<Rightarrow> user \<Rightarrow> db \<Rightarrow> result \<times> db" where
  "complete_course now data u d =
     (let course_id = or_empty (complete_course_id data)
      in if course_id = [] then (Inr (error_body ''Missing course_id'', 400), d)
         else
           (case select_completion d (cu_id u) course_id of
              Some existing \<Rightarrow>
                (Inr (JObj [(''message'', JStr ''Already completed''), (''user'', JObj (user_dict u))], 200), d)
            | None \<Rightarrow>
                (case insert_completion d (cu_id u) course_id now of
                   Inl e \<Rightarrow> (Inl e, d)
                 | Inr d1 \<Rightarrow>
                     (let points_awarded = 100;
                          d2 = update_points d1 points_awarded (cu_id u)
                      in case select_user_by_id d2 (cu_id u) of
                           None \<Rightarrow> (Inl TypeError, d2)
                         | Some updated \<Rightarrow>
                             (Inr (JObj [(''message'', JStr ''Course completed''),
                                         (''points_awarded'', JInt points_awarded),
                                         (''user'', JObj (user_dict updated))], 200), d2)))))"

text \<open>
  The states \<^verbatim>\<open>complete_course()\<close> commits, in order: none when it answers
  without writing, otherwise the state after the insert and the state after the
  update.
\<close>

definition complete_course_commits :: "int \<Rightarrow> complete_data \<Rightarrow> user \<Rightarrow> db \<Rightarrow> db list" where
  "complete_course_commits now data u d =
     (let course_id = or_empty (complete_course_id data)
      in if course_id = [] then []
         else
           (case select_completion d (cu_id u) course_id of
              Some existing \<Rightarrow> []
            | None \<Rightarrow>
                (case insert_completion d (cu_id u) course_id now of
                   Inl e \<Rightarrow> []
                 | Inr d1 \<Rightarrow> [d1, update_points d1 100 (cu_id u)])))"

text \<open>\<^verbatim>\<open>rate_course()\<close>, inside the guard.\<close>

definition rate_course :: "int \<Rightarrow> rate_data \<Rightarrow> user \<Rightarrow> db \<Rightarrow> result \<times> db" where
  "rate_course now data u d =
     (let course_id = or_empty (rate_course_id data)
      in case py_int (py_or (rate_rating data) (JInt 0)) of
           Inl e \<Rightarrow> (Inl e, d)
         | Inr rating \<Rightarrow>
             if course_id = [] \<or> rating < 1 \<or> rating > 5 then
               (Inr (error_body ''Invalid course_id or rating (1-5 required)'', 400), d)
             else
               (case (case select_rating d (cu_id u) course_id of
                        Some existing \<Rightarrow> update_rating d rating existing now
                      | None \<Rightarrow> insert_rating d (cu_id u) course_id rating now) of
                  Inl e \<Rightarrow> (Inl e, d)
                | Inr d' \<Rightarrow>
                    (let avg = select_avg_count d' course_id
                     in (Inr (JObj [(''message'', JStr ''Rating saved''),
                                    (''average'', json_of_avg (fst avg)),
                                    (''count'', JInt (snd avg))], 200), d'))))"

text \<open>
  Modelled from the spec: the course catalog (\<^verbatim>\<open>src/data/courses.json\<close>) is not
  among the sources; the spec describes it as an ordered sequence of records
  \<^verbatim>\<open>{id: string, ...}\<close>. A record is its id and its other entries; a catalog that
  cannot be read is the empty list.
\<close>

record course =
  course_id :: string
  course_entries :: "(string \<times> json) list"

definition course_dict :: "course \<Rightarrow> (string \<times> json) list" where
  "course_dict c = (''id'', JStr (course_id c)) # course_entries c"

text \<open>
  The body of the first loop of \<^verbatim>\<open>courses()\<close>: a copy of the catalog record with
  the average rating and the rating count of the course set.
\<close>

definition with_rating :: "db \<Rightarrow> course \<Rightarrow> (string \<times> json) list" where
  "with_rating d c =
     (let r = select_avg_count d (course_id c);
          c_copy = course_dict c
      in AList.update ''rating_count'' (JInt (snd r))
           (AList.update ''avg_rating'' (json_of_avg (fst r)) c_copy))"

text \<open>
  \<^verbatim>\<open>courses()\<close>: the catalog with the ratings merged in, and the completion flags
  when the request carries a token that verifies.
\<close>

definition courses :: "env \<Rightarrow> int \<Rightarrow> course list \<Rightarrow> string option \<Rightarrow> db \<Rightarrow> result \<times> db" where
  "courses E now catalog authorization d =
     (let out = map (with_rating d) catalog;
          auth = or_empty authorization
      in if startswith auth ''Bearer '' then
           (case split1 (CHR '' '') auth of
              [scheme, token] \<Rightarrow>
                (case verify_token E now token of
                   None \<Rightarrow> (Inr (JList (map JObj out), 200), d)
                 | Some uid \<Rightarrow>
                     if uid \<noteq> 0 then
                       (case bind_int uid of
                          Inl e \<Rightarrow> (Inl e, d)
                        | Inr i \<Rightarrow>
                            (let user_comps = filter (\<lambda>r. c_user_id r = i) (completions d);
                                 completed_set = set (map (\<lambda>r. JStr (c_course_id r)) user_comps)
                             in (Inr (JList (map (\<lambda>c. JObj (AList.update ''completed''
                                                   (JBool (dict_get c ''id'' \<in> completed_set)) c)) out), 200), d)))
                     else (Inr (JList (map JObj out), 200), d))
            | _ \<Rightarrow> (Inl IndexError, d))
         else (Inr (JList (map JObj out), 200), d))"

section \<open>The application as a state machine\<close>

text \<open>
  One request: the route, the clock at which it is served and what it carries.
  The protected routes go through the guard.
\<close>

datatype request =
    Register int string register_data
  | Login int login_data
  | Me int "string option"
  | Complete_course int "string option" complete_data
  | Rate_course int "string option" rate_data
  | Courses int "string option"

fun handle :: "env \<Rightarrow> course list \<Rightarrow> request \<Rightarrow> db \<Rightarrow> result \<times> db" where
  "handle E catalog (Register now salt data) d = register E now salt data d"
| "handle E catalog (Login now data) d = login E now data d"
| "handle E catalog (Me now authorization) d = auth_required E now me authorization d"
| "handle E catalog (Complete_course now authorization data) d =
     auth_required E now (complete_course now data) authorization d"
| "handle E catalog (Rate_course now authorization data) d =
     auth_required E now (rate_course now data) authorization d"
| "handle E catalog (Courses now authorization) d = courses E now catalog authorization d"

text \<open>The database after a sequence of requests, served one after the other.\<close>

fun run :: "env \<Rightarrow> course list \<Rightarrow> request list \<Rightarrow> db \<Rightarrow> db" where
  "run E catalog [] d = d"
| "run E catalog (req # reqs) d = run E catalog reqs (snd (handle E catalog req d))"

section \<open>Notions used in the statements\<close>

text \<open>The payload \<^verbatim>\<open>make_token\<close> signs.\<close>

definition token_payload :: "int \<Rightarrow> int \<Rightarrow> int \<Rightarrow> (string \<times> json) list" where
  "token_payload now user_id expires_minutes =
     [(''sub'', JStr (str_int user_id)), (''exp'', JInt (now + 60 * expires_minutes))]"

text \<open>
  The one property of the wire format that the round trip needs: decoding the
  token that \<^verbatim>\<open>jwt.encode\<close> built for a payload gives back the header, the
  payload, the signed text and the signature that went into it.
\<close>

definition decodes_as_encoded :: "env \<Rightarrow> (string \<times> json) list \<Rightarrow> bool" where
  "decodes_as_encoded E payload =
     (jwt_segments E (jwt_encode E payload (JWT_SECRET E) JWT_ALGO) =
        Some \<lparr>jws_alg = JStr JWT_ALGO, jws_payload = payload,
              jws_signing_input = jwt_signing_input E JWT_ALGO payload,
              jws_signature = hmac_sha256 E (JWT_SECRET E) (jwt_signing_input E JWT_ALGO payload)\<rparr>)"





text \<open>
  The spec describes the result of a completion as \<^verbatim>\<open>{awarded, points_awarded, user}\<close>.
  The handler's response has no \<^verbatim>\<open>awarded\<close> entry and carries \<^verbatim>\<open>points_awarded\<close>
  only when it awards: the spec's two fields are read off the response as follows.
\<close>

definition spec_awarded :: "result \<Rightarrow> bool" where
  "spec_awarded r =
     (case r of
        Inr (JObj kvs, status) \<Rightarrow> map_of kvs ''message'' = Some (JStr ''Course completed'')
      | _ \<Rightarrow> False)"

definition spec_points_awarded :: "result \<Rightarrow> int" where
  "spec_points_awarded r =
     (case r of
        Inr (JObj kvs, status) \<Rightarrow> (case map_of kvs ''points_awarded'' of Some (JInt n) \<Rightarrow> n | _ \<Rightarrow> 0)
      | _ \<Rightarrow> 0)"

text \<open>
  The ledger invariant: every user's points are 100 times the number of completion
  rows of that user. It is kept together with referential integrity: every
  completion row belongs to a user row.
\<close>

definition points_consistent :: "db \<Rightarrow> bool" where
  "points_consistent d =
     list_all (\<lambda>u. u_points u = 100 * int (length (filter (\<lambda>c. c_user_id c = u_id u) (completions d))))
       (users d)"

definition completions_have_users :: "db \<Rightarrow> bool" where
  "completions_have_users d = list_all (\<lambda>c. c_user_id c \<in> set (map u_id (users d))) (completions d)"

text \<open>
  The \<^verbatim>\<open>UNIQUE(user_id, course_id)\<close> constraint of the ratings table: no two rows
  with the same user and course.
\<close>

definition ratings_unique :: "db \<Rightarrow> bool" where
  "ratings_unique d = distinct (map (\<lambda>r. (r_user_id r, r_course_id r)) (ratings d))"

text \<open>
  A sequence of rating requests by one user for one course, each with its clock
  and its rating, served one after the other.
\<close>

definition rate_many :: "user \<Rightarrow> string \<Rightarrow> (int \<times> int) list \<Rightarrow> db \<Rightarrow> db" where
  "rate_many u c calls d =
     fold (\<lambda>(now, r) d'. snd (rate_course now \<lparr>rate_course_id = Some c, rate_rating = JInt r\<rparr> u d'))
       calls d"


text \<open>The row that a successful \<^verbatim>\<open>register()\<close> inserts.\<close>

definition new_user_row :: "env \<Rightarrow> int \<Rightarrow> string \<Rightarrow> register_data \<Rightarrow> db \<Rightarrow> user_row" where
  "new_user_row E now salt data d =
     \<lparr>u_id = next_rowid (map u_id (users d)),
      u_username = strip (or_empty (reg_username data)),
      u_email = lower (strip (or_empty (reg_email data))),
      u_password_hash = generate_password_hash E salt (or_empty (reg_password data)),
      u_points = 0, u_created_at = now\<rparr>"

section \<open>An example environment\<close>

text \<open>
  A small environment on which the functions above can be run: a toy MAC, tokens
  of the form \<^verbatim>\<open>subject.signature\<close>, and a decoder that knows four tokens: the
  one issued at clock 1000 for user 1, the same with another signature, one for
  user 7, and one whose subject is not a number.
\<close>

definition example_tokens :: "(string \<times> jws) list" where
  "example_tokens =
     [(''1.k1'', \<lparr>jws_alg = JStr ''HS256'', jws_payload = token_payload 1000 1 (60 * 24 * 7),
                  jws_signing_input = ''1'', jws_signature = ''k1''\<rparr>),
      (''1.xx'', \<lparr>jws_alg = JStr ''HS256'', jws_payload = token_payload 1000 1 (60 * 24 * 7),
                  jws_signing_input = ''1'', jws_signature = ''xx''\<rparr>),
      (''7.k7'', \<lparr>jws_alg = JStr ''HS256'', jws_payload = token_payload 1000 7 (60 * 24 * 7),
                  jws_signing_input = ''7'', jws_signature = ''k7''\<rparr>),
      (''abc.kabc'', \<lparr>jws_alg = JStr ''HS256'',
                      jws_payload = [(''sub'', JStr ''abc''), (''exp'', JInt 605800)],
                      jws_signing_input = ''abc'', jws_signature = ''kabc''\<rparr>)]"

definition example_env :: env where
  "example_env =
     \<lparr>JWT_SECRET = ''k'',
      hmac_sha256 = (\<lambda>key msg. key @ msg),
      jwt_signing_input = (\<lambda>alg payload. case dict_get payload ''sub'' of JStr s \<Rightarrow> s | _ \<Rightarrow> ''?''),
      jwt_compact = (\<lambda>signing_input signature. signing_input @ ''.'' @ signature),
      jwt_segments = map_of example_tokens,
      generate_password_hash = (\<lambda>salt password. salt @ ''$'' @ password),
      check_password_hash = (\<lambda>pwhash password. pwhash = ''salt$'' @ password)\<rparr>"

text \<open>A database with one registered user, for running the handlers.\<close>

definition example_user :: user_row where
  "example_user = \<lparr>u_id = 1, u_username = ''alice'', u_email = ''alice@example.org'',
                    u_password_hash = ''salt$secret1'', u_points = 0, u_created_at = 1000\<rparr>"

definition example_db :: db where
  "example_db = \<lparr>users = [example_user], completions = [], ratings = []\<rparr>"

text \<open>A registration followed by two completion requests for the same course.\<close>

definition example_requests :: "request list" where
  "example_requests =
     [Register 1000 ''salt'' \<lparr>reg_username = Some ''alice'', reg_email = Some ''Alice@Example.org'',
                               reg_password = Some ''secret1''\<rparr>,
      Complete_course 2000 (Some ''Bearer 1.k1'') \<lparr>complete_course_id = Some ''c1''\<rparr>,
      Complete_course 3000 (Some ''Bearer 1.k1'') \<lparr>complete_course_id = Some ''c1''\<rparr>]"

text \<open>The registration that takes the empty database to the example database.\<close>

definition example_registration :: register_data where
  "example_registration =
     \<lparr>reg_username = Some ''alice'', reg_email = Some ''Alice@Example.org'', reg_password = Some ''secret1''\<rparr>"



section \<open>Decimal text of integers\<close>

lemma is_digit_digit_char: "n < 10 \<Longrightarrow> is_digit (digit_char n)"
  by (simp add: is_digit_def digit_char_def)

lemma digit_val_digit_char: "n < 10 \<Longrightarrow> digit_val (digit_char n) = n"
  by (simp add: digit_val_def digit_char_def)

lemma is_digit_not_special:
  "is_digit c \<Longrightarrow> c \<noteq> CHR ''_'' \<and> c \<noteq> CHR ''-'' \<and> c \<noteq> CHR ''+'' \<and> \<not> is_space c"
  by (auto simp add: is_digit_def is_space_def Let_def)

lemma digits_of_digits: "\<forall>c \<in> set (digits_of n). is_digit c"
proof (induction n rule: digits_of.induct)
  case (1 n)
  show ?case
  proof (cases "n < 10")
    case True
    then show ?thesis by (simp add: digits_of.simps [of n] is_digit_digit_char)
  next
    case False
    with 1 show ?thesis by (simp add: digits_of.simps [of n] is_digit_digit_char)
  qed
qed

lemma digits_of_nonempty: "digits_of n \<noteq> []"
  by (subst digits_of.simps) simp

lemma parse_digits_all:
  "\<forall>c \<in> set ds. is_digit c \<Longrightarrow>
     parse_digits acc ds = Some (foldl (\<lambda>a c. 10 * a + digit_val c) acc ds)"
proof (induction acc ds rule: parse_digits.induct)
  case (1 acc)
  then show ?case by simp
next
  case (2 acc c)
  then show ?case by simp
next
  case (3 acc c d ds)
  then show ?case using is_digit_not_special [of c] by simp
qed

lemma digits_value_digits_of: "foldl (\<lambda>a c. 10 * a + digit_val c) 0 (digits_of n) = n"
proof (induction n rule: digits_of.induct)
  case (1 n)
  show ?case
  proof (cases "n < 10")
    case True
    then show ?thesis by (simp add: digits_of.simps [of n] digit_val_digit_char)
  next
    case False
    with 1 show ?thesis
      by (simp add: digits_of.simps [of n] digit_val_digit_char)
  qed
qed

lemma parse_nat_digits_of: "parse_nat (digits_of n) = Some n"
proof -
  obtain c cs where cs: "digits_of n = c # cs"
    using digits_of_nonempty [of n] by (cases "digits_of n") auto
  have dig: "\<forall>x \<in> set (c # cs). is_digit x"
    using digits_of_digits [of n] cs by simp
  then have "parse_nat (c # cs) = Some (foldl (\<lambda>a c. 10 * a + digit_val c) (digit_val c) cs)"
    by (simp add: parse_nat_def parse_digits_all)
  also have "foldl (\<lambda>a c. 10 * a + digit_val c) (digit_val c) cs
           = foldl (\<lambda>a c. 10 * a + digit_val c) 0 (c # cs)"
    by simp
  finally show ?thesis using cs digits_value_digits_of [of n] by simp
qed

lemma strip_id: "s \<noteq> [] \<Longrightarrow> \<not> is_space (hd s) \<Longrightarrow> \<not> is_space (last s) \<Longrightarrow> strip s = s"
proof -
  assume a: "s \<noteq> []" "\<not> is_space (hd s)" "\<not> is_space (last s)"
  then have 1: "dropWhile is_space s = s" by (cases s) auto
  from a have "rev s \<noteq> []" "\<not> is_space (hd (rev s))" by (simp_all add: hd_rev)
  then have 2: "dropWhile is_space (rev s) = rev s" by (cases "rev s") auto
  show ?thesis by (simp add: strip_def 1 2)
qed

lemma strip_str_int: "strip (str_int i) = str_int i"
proof -
  let ?d = "digits_of (nat \<bar>i\<bar>)"
  have ne: "?d \<noteq> []" by (rule digits_of_nonempty)
  have "is_digit (hd ?d)" "is_digit (last ?d)"
    using digits_of_digits [of "nat \<bar>i\<bar>"] ne by simp_all
  then have sp: "\<not> is_space (hd ?d)" "\<not> is_space (last ?d)"
    using is_digit_not_special by blast+
  have m: "\<not> is_space (CHR ''-'')" by (simp add: is_space_def)
  show ?thesis
  proof (cases "i < 0")
    case True
    then have "str_int i = CHR ''-'' # ?d" by (simp add: str_int_def abs_if)
    moreover have "strip (CHR ''-'' # ?d) = CHR ''-'' # ?d"
      using ne sp m by (intro strip_id) simp_all
    ultimately show ?thesis by simp
  next
    case False
    then have "str_int i = ?d" by (simp add: str_int_def abs_if)
    then show ?thesis using ne sp by (simp add: strip_id)
  qed
qed

text \<open>The subject of a token is written with \<^verbatim>\<open>str\<close> and read back with \<^verbatim>\<open>int\<close>.\<close>

lemma int_of_str_str_int: "int_of_str (str_int i) = Inr i"
proof (cases "i < 0")
  case True
  then have s: "str_int i = CHR ''-'' # digits_of (nat (- i))" by (simp add: str_int_def)
  have "strip (str_int i) = str_int i" by (rule strip_str_int)
  with s True show ?thesis
    by (simp add: int_of_str_def parse_nat_digits_of)
next
  case False
  let ?d = "digits_of (nat i)"
  from False have s: "str_int i = ?d" by (simp add: str_int_def)
  obtain c cs where cs: "?d = c # cs"
    using digits_of_nonempty [of "nat i"] by (cases ?d) auto
  have "is_digit c" using digits_of_digits [of "nat i"] cs by simp
  then have c: "c \<noteq> CHR ''-''" "c \<noteq> CHR ''+''" using is_digit_not_special by blast+
  have "strip (str_int i) = c # cs" using strip_str_int [of i] s cs by simp
  moreover have "parse_nat (c # cs) = Some (nat i)" using parse_nat_digits_of [of "nat i"] cs by simp
  ultimately show ?thesis using c False by (simp add: int_of_str_def)
qed

section \<open>Tokens\<close>




lemma make_token_payload:
  "make_token E t0 X m = jwt_encode E (token_payload t0 X m) (JWT_SECRET E) JWT_ALGO"
  by (simp add: make_token_def token_payload_def Let_def)

lemma validate_claims_token_payload:
  "validate_claims t (token_payload t0 X m) = (if t0 + 60 * m \<le> t then Some ExpiredSignatureError else None)"
  by (simp add: validate_claims_def token_payload_def validate_iat_def validate_nbf_def
      validate_exp_def validate_aud_def validate_sub_def validate_jti_def claim_int_def)

lemma jwt_decode_make_token:
  assumes "decodes_as_encoded E (token_payload t0 X m)"
  shows "jwt_decode E t (make_token E t0 X m) (JWT_SECRET E) [JWT_ALGO] =
           (if t0 + 60 * m \<le> t then Inl ExpiredSignatureError else Inr (token_payload t0 X m))"
  using assms
  by (simp add: jwt_decode_def make_token_payload decodes_as_encoded_def
      validate_claims_token_payload JWT_ALGO_def)

lemma verify_make_token:
  assumes "decodes_as_encoded E (token_payload t0 X m)"
  shows "verify_token E t (make_token E t0 X m) = (if t0 + 60 * m \<le> t then None else Some X)"
  by (simp add: verify_token_def jwt_decode_make_token [OF assms] token_payload_def dict_get_def
      int_of_str_str_int)

lemma verify_token_signature:
  assumes "jwt_segments E token = Some j"
    and "jws_signature j \<noteq> hmac_sha256 E (JWT_SECRET E) (jws_signing_input j)"
  shows "verify_token E t token = None"
  using assms by (simp add: verify_token_def jwt_decode_def)

text \<open>The example environment at work.\<close>

lemma ex_str_int_1: "str_int 1 = ''1''"
  by code_simp

lemma ex_decodes: "decodes_as_encoded example_env (token_payload 1000 1 (60 * 24 * 7))"
  by (simp add: decodes_as_encoded_def example_env_def example_tokens_def jwt_encode_def
      token_payload_def dict_get_def JWT_ALGO_def ex_str_int_1)



text \<open>
  C6. A token issued for user \<open>X\<close> at clock \<open>t0\<close> with a lifetime of \<open>m\<close> minutes
  (7 days by default) verifies to \<open>X\<close> at every clock before \<open>t0 + 60 m\<close>, and to
  \<^verbatim>\<open>None\<close> from then on; a token that differs from it in the signature only
  verifies to \<^verbatim>\<open>None\<close> at every clock.
\<close>

theorem token_round_trip:
  assumes "decodes_as_encoded E (token_payload t0 X m)"
  shows "(t < t0 + 60 * m \<longrightarrow> verify_token E t (make_token E t0 X m) = Some X)
       \<and> (t0 + 60 * m \<le> t \<longrightarrow> verify_token E t (make_token E t0 X m) = None)
       \<and> (\<forall>j token' s'. jwt_segments E (make_token E t0 X m) = Some j
             \<and> jwt_segments E token' = Some (j\<lparr>jws_signature := s'\<rparr>)
             \<and> s' \<noteq> jws_signature j
            \<longrightarrow> verify_token E t token' = None)"
proof (intro conjI allI impI)
  assume "t < t0 + 60 * m"
  then show "verify_token E t (make_token E t0 X m) = Some X"
    by (simp add: verify_make_token [OF assms])
next
  assume "t0 + 60 * m \<le> t"
  then show "verify_token E t (make_token E t0 X m) = None"
    by (simp add: verify_make_token [OF assms])
next
  fix j token' s'
  assume h: "jwt_segments E (make_token E t0 X m) = Some j
             \<and> jwt_segments E token' = Some (j\<lparr>jws_signature := s'\<rparr>)
             \<and> s' \<noteq> jws_signature j"
  then have "jws_signature j = hmac_sha256 E (JWT_SECRET E) (jws_signing_input j)"
    using assms by (auto simp add: decodes_as_encoded_def make_token_payload)
  with h show "verify_token E t token' = None"
    by (intro verify_token_signature [of E token' "j\<lparr>jws_signature := s'\<rparr>"]) auto
qed

theorem token_round_trip_witness:
  "decodes_as_encoded example_env (token_payload 1000 1 (60 * 24 * 7))
   \<and> make_token example_env 1000 1 (60 * 24 * 7) = ''1.k1''
   \<and> verify_token example_env 605799 ''1.k1'' = Some 1
   \<and> verify_token example_env 605800 ''1.k1'' = None
   \<and> verify_token example_env 2000 ''1.xx'' = None"
proof -
  have tok: "make_token example_env 1000 1 (60 * 24 * 7) = ''1.k1''"
    by (simp add: make_token_def jwt_encode_def example_env_def dict_get_def ex_str_int_1 JWT_ALGO_def)
  have seg: "jwt_segments example_env ''1.k1'' = Some \<lparr>jws_alg = JStr ''HS256'', jws_payload = token_payload 1000 1 (60 * 24 * 7),
                  jws_signing_input = ''1'', jws_signature = ''k1''\<rparr>"
     "jwt_segments example_env ''1.xx'' = Some (\<lparr>jws_alg = JStr ''HS256'', jws_payload = token_payload 1000 1 (60 * 24 * 7),
                  jws_signing_input = ''1'', jws_signature = ''k1''\<rparr>\<lparr>jws_signature := ''xx''\<rparr>)"
    by (simp_all add: example_env_def example_tokens_def)
  show ?thesis
    using ex_decodes tok seg
      token_round_trip [OF ex_decodes, of 605799]
      token_round_trip [OF ex_decodes, of 605800]
      token_round_trip [OF ex_decodes, of 2000]
    by simp
qed

section \<open>Completions\<close>

lemma find_None_filter: "find P xs = None \<longleftrightarrow> filter P xs = []"
  by (induction xs) auto

lemma find_None_list_ex: "find P xs = None \<longleftrightarrow> \<not> list_ex P xs"
  by (induction xs) auto

lemma find_map_update:
  "(\<And>x. P (f x) = P x) \<Longrightarrow> find P (map f xs) = map_option f (find P xs)"
  by (induction xs) auto

lemma find_SomeD: "find P xs = Some x \<Longrightarrow> P x \<and> x \<in> set xs"
  by (induction xs) (auto split: if_splits)

lemma select_user_by_id_cu_id: "select_user_by_id d uid = Some u \<Longrightarrow> cu_id u = uid"
  by (auto simp add: select_user_by_id_def user_columns_def dest: find_SomeD)

lemma select_completion_None:
  "select_completion d uid c = None \<longleftrightarrow>
     filter (\<lambda>r. c_user_id r = uid \<and> c_course_id r = c) (completions d) = []"
  by (simp add: select_completion_def find_None_filter)

lemma insert_completion_fresh:
  "select_completion d uid c = None \<Longrightarrow>
     insert_completion d uid c now =
       Inr (d\<lparr>completions := completions d @
              [\<lparr>c_id = next_rowid (map c_id (completions d)), c_user_id = uid,
                c_course_id = c, c_completed_at = now\<rparr>]\<rparr>)"
  by (simp add: insert_completion_def select_completion_def find_None_list_ex)

lemma find_map_matching:
  "(\<And>x. P (g x) = P x) \<Longrightarrow>
     find P (map (\<lambda>x. if P x then g x else x) xs) = map_option g (find P xs)"
  by (induction xs) auto

lemma user_columns_add_points:
  "user_columns (x\<lparr>u_points := u_points x + a\<rparr>) = (user_columns x)\<lparr>cu_points := cu_points (user_columns x) + a\<rparr>"
  by (simp add: user_columns_def)

lemma select_user_update_points:
  "select_user_by_id (update_points d a uid) uid =
     map_option (\<lambda>u. u\<lparr>cu_points := cu_points u + a\<rparr>) (select_user_by_id d uid)"
proof -
  have "find (\<lambda>u. u_id u = uid)
          (map (\<lambda>u. if u_id u = uid then u\<lparr>u_points := u_points u + a\<rparr> else u) (users d))
        = map_option (\<lambda>u. u\<lparr>u_points := u_points u + a\<rparr>) (find (\<lambda>u. u_id u = uid) (users d))"
    by (rule find_map_matching) simp
  then show ?thesis
    by (simp add: select_user_by_id_def update_points_def option.map_comp comp_def
        user_columns_add_points)
qed

lemma complete_course_first:
  assumes "select_user_by_id d uid = Some u" and "c \<noteq> []" and "select_completion d uid c = None"
  shows "complete_course now \<lparr>complete_course_id = Some c\<rparr> u d =
           (Inr (JObj [(''message'', JStr ''Course completed''), (''points_awarded'', JInt 100),
                       (''user'', JObj (user_dict (u\<lparr>cu_points := cu_points u + 100\<rparr>)))], 200),
            update_points (d\<lparr>completions := completions d @
              [\<lparr>c_id = next_rowid (map c_id (completions d)), c_user_id = uid,
                c_course_id = c, c_completed_at = now\<rparr>]\<rparr>) 100 uid)"
proof -
  have id: "cu_id u = uid" using assms(1) by (rule select_user_by_id_cu_id)
  let ?d1 = "d\<lparr>completions := completions d @
              [\<lparr>c_id = next_rowid (map c_id (completions d)), c_user_id = uid,
                c_course_id = c, c_completed_at = now\<rparr>]\<rparr>"
  have sel: "select_user_by_id ?d1 uid = Some u"
    using assms(1) by (simp add: select_user_by_id_def)
  have upd: "select_user_by_id (update_points ?d1 100 uid) uid = Some (u\<lparr>cu_points := cu_points u + 100\<rparr>)"
    by (simp add: select_user_update_points sel)
  show ?thesis
    using assms(2,3) id upd
    by (simp add: complete_course_def or_empty_def insert_completion_fresh Let_def)
qed

lemma complete_course_again:
  assumes "c \<noteq> []" and "select_completion d (cu_id u) c \<noteq> None"
  shows "complete_course now \<lparr>complete_course_id = Some c\<rparr> u d =
           (Inr (JObj [(''message'', JStr ''Already completed''), (''user'', JObj (user_dict u))], 200), d)"
  using assms by (auto simp add: complete_course_def or_empty_def)

section \<open>The points ledger\<close>

lemma fold_max_bounds: "a \<le> fold max ids a \<and> (\<forall>i \<in> set ids. i \<le> fold max ids (a::int))"
proof (induction ids arbitrary: a)
  case Nil
  then show ?case by simp
next
  case (Cons x xs)
  have 1: "max x a \<le> fold max xs (max x a)" and 2: "\<forall>i \<in> set xs. i \<le> fold max xs (max x a)"
    using Cons.IH [of "max x a"] by simp_all
  from 1 have "a \<le> fold max xs (max x a)" "x \<le> fold max xs (max x a)" by simp_all
  with 2 show ?case by simp
qed

lemma next_rowid_fresh: "next_rowid ids \<notin> set ids"
proof
  assume "next_rowid ids \<in> set ids"
  then have "next_rowid ids \<le> fold max ids 0" using fold_max_bounds [of 0 ids] by blast
  then show False by (simp add: next_rowid_def)
qed

lemma auth_required_cases:
  "auth_required E now fn authorization d = (r, d') \<Longrightarrow>
     d' = d \<or> (\<exists>u. select_user_by_id d (cu_id u) = Some u \<and> fn u d = (r, d'))"
proof -
  assume a: "auth_required E now fn authorization d = (r, d')"
  show ?thesis
  proof (cases "startswith (or_empty authorization) ''Bearer ''")
    case False
    with a show ?thesis by (simp add: auth_required_def Let_def)
  next
    case True
    show ?thesis
    proof (cases "split1 (CHR '' '') (or_empty authorization)")
      case Nil
      with a True show ?thesis by (simp add: auth_required_def Let_def)
    next
      case (Cons scheme rest)
      show ?thesis
      proof (cases rest)
        case Nil
        with a True Cons show ?thesis by (simp add: auth_required_def Let_def)
      next
        case (Cons token rest')
        note c2 = this
        show ?thesis
        proof (cases rest')
          case (Cons x xs)
          with a True c2 \<open>split1 (CHR '' '') (or_empty authorization) = scheme # rest\<close>
          show ?thesis by (simp add: auth_required_def Let_def)
        next
          case Nil
          then have sp: "split1 (CHR '' '') (or_empty authorization) = [scheme, token]"
            using c2 \<open>split1 (CHR '' '') (or_empty authorization) = scheme # rest\<close> by simp
          show ?thesis
          proof (cases "verify_token E now token")
            case None
            with a True sp show ?thesis by (simp add: auth_required_def Let_def)
          next
            case (Some user_id)
            note v = this
            show ?thesis
            proof (cases "user_id = 0")
              case True
              with a \<open>startswith (or_empty authorization) ''Bearer ''\<close> sp v show ?thesis
                by (simp add: auth_required_def Let_def)
            next
              case False
              note nz = this
              show ?thesis
              proof (cases "bind_int user_id")
                case (Inl e)
                with a True sp v nz show ?thesis by (simp add: auth_required_def Let_def)
              next
                case (Inr i)
                note b = this
                show ?thesis
                proof (cases "select_user_by_id d i")
                  case None
                  with a True sp v nz b show ?thesis by (simp add: auth_required_def Let_def)
                next
                  case (Some u)
                  then have "cu_id u = i" by (rule select_user_by_id_cu_id)
                  moreover have "fn u d = (r, d')"
                    using a True sp v nz b Some by (simp add: auth_required_def Let_def)
                  ultimately show ?thesis using Some by blast
                qed
              qed
            qed
          qed
        qed
      qed
    qed
  qed
qed

lemma register_effect:
  "snd (register E now salt data d) = d
   \<or> (\<exists>un em ph. snd (register E now salt data d) =
         d\<lparr>users := users d @
             [\<lparr>u_id = next_rowid (map u_id (users d)), u_username = un, u_email = em,
               u_password_hash = ph, u_points = 0, u_created_at = now\<rparr>]\<rparr>)"
  by (auto simp add: register_def insert_user_def Let_def split: option.splits)

lemma login_effect: "snd (login E now data d) = d"
  by (simp add: login_def Let_def split: option.splits)

lemma me_effect: "snd (me u d) = d"
  by (simp add: me_def Let_def)

lemma courses_effect: "snd (courses E now catalog authorization d) = d"
  by (simp add: courses_def Let_def split: option.splits list.splits sum.splits)

lemma complete_course_effect:
  "snd (complete_course now data u d) = d
   \<or> (\<exists>cid. snd (complete_course now data u d) =
         update_points (d\<lparr>completions := completions d @
             [\<lparr>c_id = next_rowid (map c_id (completions d)), c_user_id = cu_id u,
               c_course_id = cid, c_completed_at = now\<rparr>]\<rparr>) 100 (cu_id u))"
  by (auto simp add: complete_course_def insert_completion_def Let_def split: option.splits)

lemma rate_course_effect:
  "users (snd (rate_course now data u d)) = users d
   \<and> completions (snd (rate_course now data u d)) = completions d"
  by (auto simp add: rate_course_def insert_rating_def update_rating_def Let_def
      split: option.splits sum.splits)

lemma insert_user_keeps_invariant:
  fixes un em ph :: string and now :: int
  assumes "points_consistent d" and "completions_have_users d"
  defines "d' \<equiv> d\<lparr>users := users d @
             [\<lparr>u_id = next_rowid (map u_id (users d)), u_username = un, u_email = em,
               u_password_hash = ph, u_points = 0, u_created_at = now\<rparr>]\<rparr>"
  shows "points_consistent d' \<and> completions_have_users d'"
proof -
  have fresh: "next_rowid (map u_id (users d)) \<notin> set (map u_id (users d))"
    by (rule next_rowid_fresh)
  have "\<forall>c \<in> set (completions d). c_user_id c \<noteq> next_rowid (map u_id (users d))"
  proof
    fix c assume "c \<in> set (completions d)"
    then have "c_user_id c \<in> set (map u_id (users d))"
      using assms(2) by (simp add: completions_have_users_def list_all_iff)
    with fresh show "c_user_id c \<noteq> next_rowid (map u_id (users d))" by metis
  qed
  then have none: "filter (\<lambda>c. c_user_id c = next_rowid (map u_id (users d))) (completions d) = []"
    by (simp add: filter_empty_conv)
  have 1: "points_consistent d'"
    using assms(1) none by (simp add: points_consistent_def d'_def)
  have 2: "completions_have_users d'"
    using assms(2) by (auto simp add: completions_have_users_def d'_def list_all_iff)
  from 1 2 show ?thesis ..
qed

lemma complete_keeps_invariant:
  fixes cid :: string and uid now :: int
  assumes "points_consistent d" and "completions_have_users d"
    and "uid \<in> set (map u_id (users d))"
  defines "d' \<equiv> update_points (d\<lparr>completions := completions d @
             [\<lparr>c_id = next_rowid (map c_id (completions d)), c_user_id = uid,
               c_course_id = cid, c_completed_at = now\<rparr>]\<rparr>) 100 uid"
  shows "points_consistent d' \<and> completions_have_users d'"
proof -
  have ids: "map u_id (users d') = map u_id (users d)"
    by (simp add: d'_def update_points_def comp_def if_distrib [of u_id] cong: if_cong)
  have comps: "completions d' = completions d @
             [\<lparr>c_id = next_rowid (map c_id (completions d)), c_user_id = uid,
               c_course_id = cid, c_completed_at = now\<rparr>]"
    by (simp add: d'_def update_points_def)
  have 2: "completions_have_users d'"
    using assms(2,3) by (simp add: completions_have_users_def ids comps)
  have 1: "points_consistent d'"
    unfolding points_consistent_def list_all_iff
  proof
    fix y assume "y \<in> set (users d')"
    then obtain x where x: "x \<in> set (users d)"
        and y: "y = (if u_id x = uid then x\<lparr>u_points := u_points x + 100\<rparr> else x)"
      by (auto simp add: d'_def update_points_def)
    have px: "u_points x = 100 * int (length (filter (\<lambda>c. c_user_id c = u_id x) (completions d)))"
      using assms(1) x by (simp add: points_consistent_def list_all_iff)
    show "u_points y = 100 * int (length (filter (\<lambda>c. c_user_id c = u_id y) (completions d')))"
    proof (cases "u_id x = uid")
      case True
      then have "y = x\<lparr>u_points := u_points x + 100\<rparr>" using y by simp
      then show ?thesis using px True by (simp add: comps)
    next
      case False
      then have "y = x" using y by simp
      then show ?thesis using px False by (simp add: comps)
    qed
  qed
  from 1 2 show ?thesis ..
qed

lemma register_keeps_invariant:
  assumes "points_consistent d" and "completions_have_users d"
  shows "points_consistent (snd (register E now salt data d))
       \<and> completions_have_users (snd (register E now salt data d))"
proof -
  from register_effect [of E now salt data d] consider "snd (register E now salt data d) = d"
    | un em ph where "snd (register E now salt data d) =
         d\<lparr>users := users d @
             [\<lparr>u_id = next_rowid (map u_id (users d)), u_username = un, u_email = em,
               u_password_hash = ph, u_points = 0, u_created_at = now\<rparr>]\<rparr>"
    by blast
  then show ?thesis
  proof cases
    case 1
    with assms show ?thesis by simp
  next
    case 2
    show ?thesis
      unfolding 2 by (rule insert_user_keeps_invariant [OF assms])
  qed
qed

lemma guarded_me_effect: "snd (auth_required E now me authorization d) = d"
proof -
  obtain r d' where h: "auth_required E now me authorization d = (r, d')"
    by (cases "auth_required E now me authorization d")
  from auth_required_cases [OF h] consider "d' = d" | u where "me u d = (r, d')" by blast
  then have "d' = d"
  proof cases
    case 1
    then show ?thesis .
  next
    case 2
    then show ?thesis using me_effect [of u d] by simp
  qed
  with h show ?thesis by simp
qed

lemma guarded_complete_keeps_invariant:
  assumes "points_consistent d" and "completions_have_users d"
  shows "points_consistent (snd (auth_required E now (complete_course now data) authorization d))
       \<and> completions_have_users (snd (auth_required E now (complete_course now data) authorization d))"
proof -
  obtain r d' where h: "auth_required E now (complete_course now data) authorization d = (r, d')"
    by (cases "auth_required E now (complete_course now data) authorization d")
  from auth_required_cases [OF h] consider "d' = d"
    | u where "select_user_by_id d (cu_id u) = Some u" "complete_course now data u d = (r, d')"
    by blast
  then have "points_consistent d' \<and> completions_have_users d'"
  proof cases
    case 1
    with assms show ?thesis by simp
  next
    case 2
    from 2(1) obtain x where "find (\<lambda>x. u_id x = cu_id u) (users d) = Some x"
      by (auto simp add: select_user_by_id_def)
    then have "x \<in> set (users d)" "u_id x = cu_id u" using find_SomeD by fastforce+
    then have "cu_id u \<in> set (map u_id (users d))" by force
    then have k: "\<And>cid. points_consistent (update_points (d\<lparr>completions := completions d @
             [\<lparr>c_id = next_rowid (map c_id (completions d)), c_user_id = cu_id u,
               c_course_id = cid, c_completed_at = now\<rparr>]\<rparr>) 100 (cu_id u))
          \<and> completions_have_users (update_points (d\<lparr>completions := completions d @
             [\<lparr>c_id = next_rowid (map c_id (completions d)), c_user_id = cu_id u,
               c_course_id = cid, c_completed_at = now\<rparr>]\<rparr>) 100 (cu_id u))"
      by (rule complete_keeps_invariant [OF assms])
    from 2(2) have e: "snd (complete_course now data u d) = d'" by simp
    from complete_course_effect [of now data u d] consider "d' = d"
      | cid where "d' = update_points (d\<lparr>completions := completions d @
             [\<lparr>c_id = next_rowid (map c_id (completions d)), c_user_id = cu_id u,
               c_course_id = cid, c_completed_at = now\<rparr>]\<rparr>) 100 (cu_id u)"
      unfolding e by blast
    then show ?thesis
    proof cases
      case 1
      with assms show ?thesis by simp
    next
      case 2
      show ?thesis unfolding 2 by (rule k)
    qed
  qed
  with h show ?thesis by simp
qed

lemma guarded_rate_effect:
  "users (snd (auth_required E now (rate_course now data) authorization d)) = users d
   \<and> completions (snd (auth_required E now (rate_course now data) authorization d)) = completions d"
proof -
  obtain r d' where h: "auth_required E now (rate_course now data) authorization d = (r, d')"
    by (cases "auth_required E now (rate_course now data) authorization d")
  from auth_required_cases [OF h] consider "d' = d"
    | u where "rate_course now data u d = (r, d')"
    by blast
  then have "users d' = users d \<and> completions d' = completions d"
  proof cases
    case 1
    then show ?thesis by simp
  next
    case 2
    then show ?thesis using rate_course_effect [of now data u d] by simp
  qed
  with h show ?thesis by simp
qed

lemma handle_keeps_invariant:
  assumes "points_consistent d" and "completions_have_users d"
  shows "points_consistent (snd (handle E catalog req d))
       \<and> completions_have_users (snd (handle E catalog req d))"
proof (cases req)
  case (Register now salt data)
  then show ?thesis using register_keeps_invariant [OF assms] by simp
next
  case (Login now data)
  then show ?thesis using assms by (simp add: login_effect)
next
  case (Me now authorization)
  then show ?thesis using assms by (simp add: guarded_me_effect)
next
  case (Complete_course now authorization data)
  then show ?thesis using guarded_complete_keeps_invariant [OF assms] by simp
next
  case (Rate_course now authorization data)
  have "points_consistent (snd (auth_required E now (rate_course now data) authorization d))
          = points_consistent d"
       "completions_have_users (snd (auth_required E now (rate_course now data) authorization d))
          = completions_have_users d"
    using guarded_rate_effect [of E now data authorization d]
    by (simp_all add: points_consistent_def completions_have_users_def)
  with Rate_course assms show ?thesis by simp
next
  case (Courses now authorization)
  then show ?thesis using assms by (simp add: courses_effect)
qed

lemma run_keeps_invariant:
  "points_consistent d \<Longrightarrow> completions_have_users d \<Longrightarrow>
     points_consistent (run E catalog reqs d) \<and> completions_have_users (run E catalog reqs d)"
proof (induction reqs arbitrary: d)
  case Nil
  then show ?case by simp
next
  case (Cons req reqs)
  have "points_consistent (snd (handle E catalog req d))"
      "completions_have_users (snd (handle E catalog req d))"
    using handle_keeps_invariant [OF Cons.prems] by simp_all
  then have "points_consistent (run E catalog reqs (snd (handle E catalog req d)))
       \<and> completions_have_users (run E catalog reqs (snd (handle E catalog req d)))"
    by (rule Cons.IH)
  then show ?case by simp
qed

lemma complete_course_commits_last:
  "snd (complete_course now data u d) = last (d # complete_course_commits now data u d)"
  by (simp add: complete_course_def complete_course_commits_def Let_def split: option.splits sum.splits)

text \<open>
  C2, as the code has it. After any sequence of requests, each served to its end,
  starting from the freshly initialised database, every user's points are 100
  times the number of completion rows recorded for that user.
\<close>

theorem points_follow_completions:
  "points_consistent (run E catalog reqs init_db)"
proof -
  have "points_consistent init_db" "completions_have_users init_db"
    by (simp_all add: points_consistent_def completions_have_users_def init_db_def)
  then show ?thesis using run_keeps_invariant [of init_db E catalog reqs] by simp
qed

text \<open>
  The insert and the increment are not one atomic unit: \<^verbatim>\<open>execute_db\<close> commits
  after each statement, and the state committed between the two has the completion
  row without the points.
\<close>

theorem completion_not_atomic:
  "points_consistent example_db
   \<and> complete_course_commits 2000 \<lparr>complete_course_id = Some ''c1''\<rparr> (user_columns example_user) example_db
       = [\<lparr>users = [example_user],
           completions = [\<lparr>c_id = 1, c_user_id = 1, c_course_id = ''c1'', c_completed_at = 2000\<rparr>],
           ratings = []\<rparr>,
          \<lparr>users = [example_user\<lparr>u_points := 100\<rparr>],
           completions = [\<lparr>c_id = 1, c_user_id = 1, c_course_id = ''c1'', c_completed_at = 2000\<rparr>],
           ratings = []\<rparr>]
   \<and> \<not> points_consistent
        \<lparr>users = [example_user],
         completions = [\<lparr>c_id = 1, c_user_id = 1, c_course_id = ''c1'', c_completed_at = 2000\<rparr>],
         ratings = []\<rparr>"
  by (simp add: points_consistent_def example_db_def example_user_def complete_course_commits_def
      or_empty_def select_completion_def insert_completion_def update_points_def next_rowid_def
      user_columns_def Let_def)

lemma example_run:
  "run example_env [] example_requests init_db =
     \<lparr>users = [example_user\<lparr>u_points := 100\<rparr>],
      completions = [\<lparr>c_id = 1, c_user_id = 1, c_course_id = ''c1'', c_completed_at = 2000\<rparr>],
      ratings = []\<rparr>"
  by code_simp

theorem points_follow_completions_witness:
  "points_consistent (run example_env [] example_requests init_db)
   \<and> map u_points (users (run example_env [] example_requests init_db)) = [100]
   \<and> length (completions (run example_env [] example_requests init_db)) = 1"
  using points_follow_completions [of example_env "[]" example_requests]
  by (simp add: example_run)

section \<open>Ratings\<close>

lemma filter_singleton_find:
  assumes "find P xs = Some x" and "length (filter P xs) \<le> 1"
  shows "filter P xs = [x]"
  using assms
proof (induction xs)
  case Nil
  then show ?case by simp
next
  case (Cons y ys)
  show ?case
  proof (cases "P y")
    case True
    with Cons.prems have "x = y" "filter P ys = []" by simp_all
    with True show ?thesis by simp
  next
    case False
    with Cons show ?thesis by simp
  qed
qed

lemma filter_map_keys:
  "(\<And>x. P (f x) = P x) \<Longrightarrow> filter P (map f xs) = map f (filter P xs)"
  by (induction xs) auto

lemma rate_course_insert:
  assumes "c \<noteq> []" and "1 \<le> r" and "r \<le> 5" and "select_rating d (cu_id u) c = None"
  shows "rate_course now \<lparr>rate_course_id = Some c, rate_rating = JInt r\<rparr> u d =
           (let d' = d\<lparr>ratings := ratings d @
                       [\<lparr>r_id = next_rowid (map r_id (ratings d)), r_user_id = cu_id u,
                         r_course_id = c, r_rating = r, r_created_at = now\<rparr>]\<rparr>
            in (Inr (JObj [(''message'', JStr ''Rating saved''),
                           (''average'', json_of_avg (fst (select_avg_count d' c))),
                           (''count'', JInt (snd (select_avg_count d' c)))], 200), d'))"
proof -
  have "\<not> list_ex (\<lambda>x. r_user_id x = cu_id u \<and> r_course_id x = c) (ratings d)"
    using assms(4) by (simp add: select_rating_def find_None_list_ex)
  then have ins: "insert_rating d (cu_id u) c r now =
      Inr (d\<lparr>ratings := ratings d @
                       [\<lparr>r_id = next_rowid (map r_id (ratings d)), r_user_id = cu_id u,
                         r_course_id = c, r_rating = r, r_created_at = now\<rparr>]\<rparr>)"
    using assms(2,3) by (simp add: insert_rating_def)
  have coerce: "py_int (py_or (JInt r) (JInt 0)) = Inr r"
    using assms(2) by (simp add: py_or_def)
  show ?thesis
    using assms(1,2,3,4) by (simp add: rate_course_def or_empty_def coerce ins Let_def)
qed

lemma rate_course_update:
  assumes "c \<noteq> []" and "1 \<le> r" and "r \<le> 5" and "select_rating d (cu_id u) c = Some rid"
  shows "rate_course now \<lparr>rate_course_id = Some c, rate_rating = JInt r\<rparr> u d =
           (let d' = d\<lparr>ratings := map (\<lambda>x. if r_id x = rid then x\<lparr>r_rating := r, r_created_at := now\<rparr> else x)
                                    (ratings d)\<rparr>
            in (Inr (JObj [(''message'', JStr ''Rating saved''),
                           (''average'', json_of_avg (fst (select_avg_count d' c))),
                           (''count'', JInt (snd (select_avg_count d' c)))], 200), d'))"
proof -
  have upd: "update_rating d r rid now =
      Inr (d\<lparr>ratings := map (\<lambda>x. if r_id x = rid then x\<lparr>r_rating := r, r_created_at := now\<rparr> else x)
                                    (ratings d)\<rparr>)"
    using assms(2,3) by (simp add: update_rating_def)
  have coerce: "py_int (py_or (JInt r) (JInt 0)) = Inr r"
    using assms(2) by (simp add: py_or_def)
  show ?thesis
    using assms(1,2,3,4) by (simp add: rate_course_def or_empty_def coerce upd Let_def)
qed

lemma rate_course_one_row:
  assumes "c \<noteq> []" and "1 \<le> r" and "r \<le> 5"
    and "length (filter (\<lambda>x. r_user_id x = cu_id u \<and> r_course_id x = c) (ratings d)) \<le> 1"
  shows "\<exists>row. filter (\<lambda>x. r_user_id x = cu_id u \<and> r_course_id x = c)
                 (ratings (snd (rate_course now \<lparr>rate_course_id = Some c, rate_rating = JInt r\<rparr> u d))) = [row]
              \<and> r_rating row = r"
proof (cases "select_rating d (cu_id u) c")
  case None
  then have "filter (\<lambda>x. r_user_id x = cu_id u \<and> r_course_id x = c) (ratings d) = []"
    by (simp add: select_rating_def find_None_filter)
  then show ?thesis
    by (simp add: rate_course_insert [OF assms(1,2,3) None] Let_def)
next
  case (Some rid)
  then obtain x where x: "find (\<lambda>x. r_user_id x = cu_id u \<and> r_course_id x = c) (ratings d) = Some x"
      and rid: "r_id x = rid"
    by (auto simp add: select_rating_def)
  have one: "filter (\<lambda>x. r_user_id x = cu_id u \<and> r_course_id x = c) (ratings d) = [x]"
    using x assms(4) by (rule filter_singleton_find)
  let ?f = "\<lambda>x. if r_id x = rid then x\<lparr>r_rating := r, r_created_at := now\<rparr> else x"
  have "filter (\<lambda>x. r_user_id x = cu_id u \<and> r_course_id x = c) (map ?f (ratings d))
          = map ?f (filter (\<lambda>x. r_user_id x = cu_id u \<and> r_course_id x = c) (ratings d))"
    by (rule filter_map_keys) simp
  then have "filter (\<lambda>x. r_user_id x = cu_id u \<and> r_course_id x = c) (map ?f (ratings d))
          = [x\<lparr>r_rating := r, r_created_at := now\<rparr>]"
    using one rid by simp
  then show ?thesis
    by (simp add: rate_course_update [OF assms(1,2,3) Some] Let_def)
qed

lemma find_append_none: "\<forall>x \<in> set xs. \<not> P x \<Longrightarrow> find P (xs @ ys) = find P ys"
  by (induction xs) auto

lemma rate_many_snoc:
  "rate_many u c (calls @ [(now, r)]) d =
     snd (rate_course now \<lparr>rate_course_id = Some c, rate_rating = JInt r\<rparr> u (rate_many u c calls d))"
  by (simp add: rate_many_def)

lemma rate_many_at_most_one:
  assumes "c \<noteq> []"
    and "length (filter (\<lambda>x. r_user_id x = cu_id u \<and> r_course_id x = c) (ratings d)) \<le> 1"
  shows "list_all (\<lambda>(now, r). 1 \<le> r \<and> r \<le> 5) calls \<Longrightarrow>
     length (filter (\<lambda>x. r_user_id x = cu_id u \<and> r_course_id x = c)
               (ratings (rate_many u c calls d))) \<le> 1"
proof (induction calls rule: rev_induct)
  case Nil
  then show ?case using assms(2) by (simp add: rate_many_def)
next
  case (snoc call calls)
  obtain now r where call: "call = (now, r)" by (cases call)
  from snoc.prems call have r: "1 \<le> r" "r \<le> 5" and rest: "list_all (\<lambda>(now, r). 1 \<le> r \<and> r \<le> 5) calls"
    by simp_all
  have "length (filter (\<lambda>x. r_user_id x = cu_id u \<and> r_course_id x = c)
               (ratings (rate_many u c calls d))) \<le> 1"
    using rest by (rule snoc.IH)
  from rate_course_one_row [OF assms(1) r this, of now]
  show ?case unfolding call rate_many_snoc by auto
qed

lemma select_avg_count_single:
  "filter (\<lambda>x. r_course_id x = c) (ratings d) = [row] \<Longrightarrow>
     select_avg_count d c = (Some (of_int (r_rating row)), 1)"
  by (simp add: select_avg_count_def)

text \<open>
  C3. Rating is an upsert. In a database that holds at most one rating row for
  user \<open>u\<close> and course \<open>c\<close> (the \<^verbatim>\<open>UNIQUE(user_id, course_id)\<close> constraint), after
  any non-empty sequence of rating requests by \<open>u\<close> for \<open>c\<close> with ratings in 1..5
  there is exactly one row for \<open>(u, c)\<close>, and it holds the last rating written. When
  the course has no rating yet, rating it 3 and then 5 answers first with average
  3 and count 1, then with average 5 and count 1, and leaves one row, of value 5.
\<close>

theorem rate_course_upsert:
  assumes "c \<noteq> []"
    and "length (filter (\<lambda>x. r_user_id x = cu_id u \<and> r_course_id x = c) (ratings d)) \<le> 1"
    and "calls \<noteq> []"
    and "list_all (\<lambda>(now, r). 1 \<le> r \<and> r \<le> 5) calls"
  shows "(\<exists>row. filter (\<lambda>x. r_user_id x = cu_id u \<and> r_course_id x = c)
                  (ratings (rate_many u c calls d)) = [row]
               \<and> r_rating row = snd (last calls))
       \<and> (filter (\<lambda>x. r_course_id x = c) (ratings d) = [] \<longrightarrow>
            (\<exists>d1 d2 row.
                rate_course t1 \<lparr>rate_course_id = Some c, rate_rating = JInt 3\<rparr> u d =
                  (Inr (JObj [(''message'', JStr ''Rating saved''), (''average'', JFloat (Finite 3)),
                              (''count'', JInt 1)], 200), d1)
              \<and> rate_course t2 \<lparr>rate_course_id = Some c, rate_rating = JInt 5\<rparr> u d1 =
                  (Inr (JObj [(''message'', JStr ''Rating saved''), (''average'', JFloat (Finite 5)),
                              (''count'', JInt 1)], 200), d2)
              \<and> filter (\<lambda>x. r_course_id x = c) (ratings d2) = [row]
              \<and> r_user_id row = cu_id u \<and> r_rating row = 5))"
proof
  obtain calls' now r where calls: "calls = calls' @ [(now, r)]"
    using assms(3) by (cases calls rule: rev_cases) auto
  from assms(4) calls have r: "1 \<le> r" "r \<le> 5"
      and rest: "list_all (\<lambda>(now, r). 1 \<le> r \<and> r \<le> 5) calls'"
    by simp_all
  have "length (filter (\<lambda>x. r_user_id x = cu_id u \<and> r_course_id x = c)
               (ratings (rate_many u c calls' d))) \<le> 1"
    using assms(1,2) rest by (rule rate_many_at_most_one)
  from rate_course_one_row [OF assms(1) r this, of now]
  show "\<exists>row. filter (\<lambda>x. r_user_id x = cu_id u \<and> r_course_id x = c)
                  (ratings (rate_many u c calls d)) = [row]
               \<and> r_rating row = snd (last calls)"
    unfolding calls rate_many_snoc by simp
next
  show "filter (\<lambda>x. r_course_id x = c) (ratings d) = [] \<longrightarrow>
            (\<exists>d1 d2 row.
                rate_course t1 \<lparr>rate_course_id = Some c, rate_rating = JInt 3\<rparr> u d =
                  (Inr (JObj [(''message'', JStr ''Rating saved''), (''average'', JFloat (Finite 3)),
                              (''count'', JInt 1)], 200), d1)
              \<and> rate_course t2 \<lparr>rate_course_id = Some c, rate_rating = JInt 5\<rparr> u d1 =
                  (Inr (JObj [(''message'', JStr ''Rating saved''), (''average'', JFloat (Finite 5)),
                              (''count'', JInt 1)], 200), d2)
              \<and> filter (\<lambda>x. r_course_id x = c) (ratings d2) = [row]
              \<and> r_user_id row = cu_id u \<and> r_rating row = 5)"
  proof
    assume none: "filter (\<lambda>x. r_course_id x = c) (ratings d) = []"
    let ?new = "\<lparr>r_id = next_rowid (map r_id (ratings d)), r_user_id = cu_id u,
                  r_course_id = c, r_rating = 3, r_created_at = t1\<rparr>"
    let ?d1 = "d\<lparr>ratings := ratings d @ [?new]\<rparr>"
    let ?f = "\<lambda>x. if r_id x = r_id ?new then x\<lparr>r_rating := 5, r_created_at := t2\<rparr> else x"
    let ?d2 = "?d1\<lparr>ratings := map ?f (ratings ?d1)\<rparr>"
    from none have nocourse: "\<forall>x \<in> set (ratings d). r_course_id x \<noteq> c"
      by (simp add: filter_empty_conv)
    then have "find (\<lambda>x. r_user_id x = cu_id u \<and> r_course_id x = c) (ratings d) = None"
      by (simp add: find_None_iff)
    then have sel0: "select_rating d (cu_id u) c = None"
      by (simp add: select_rating_def)
    have course1: "filter (\<lambda>x. r_course_id x = c) (ratings ?d1) = [?new]"
      using none by simp
    have first: "rate_course t1 \<lparr>rate_course_id = Some c, rate_rating = JInt 3\<rparr> u d =
                  (Inr (JObj [(''message'', JStr ''Rating saved''), (''average'', JFloat (Finite 3)),
                              (''count'', JInt 1)], 200), ?d1)"
      using rate_course_insert [OF assms(1) _ _ sel0, of 3 t1]
        select_avg_count_single [OF course1]
      by (simp add: Let_def json_of_avg_def)
    have "find (\<lambda>x. r_user_id x = cu_id u \<and> r_course_id x = c) (ratings d @ [?new]) = Some ?new"
      using nocourse by (simp add: find_append_none)
    then have sel1: "select_rating ?d1 (cu_id u) c = Some (r_id ?new)"
      by (simp add: select_rating_def)
    have "filter (\<lambda>x. r_course_id x = c) (map ?f (ratings ?d1))
            = map ?f (filter (\<lambda>x. r_course_id x = c) (ratings ?d1))"
      by (rule filter_map_keys) simp
    then have course2: "filter (\<lambda>x. r_course_id x = c) (ratings ?d2) = [?new\<lparr>r_rating := 5, r_created_at := t2\<rparr>]"
      using course1 by simp
    have second: "rate_course t2 \<lparr>rate_course_id = Some c, rate_rating = JInt 5\<rparr> u ?d1 =
                  (Inr (JObj [(''message'', JStr ''Rating saved''), (''average'', JFloat (Finite 5)),
                              (''count'', JInt 1)], 200), ?d2)"
      using rate_course_update [OF assms(1) _ _ sel1, of 5 t2]
        select_avg_count_single [OF course2]
      by (simp add: Let_def json_of_avg_def)
    show "\<exists>d1 d2 row.
                rate_course t1 \<lparr>rate_course_id = Some c, rate_rating = JInt 3\<rparr> u d =
                  (Inr (JObj [(''message'', JStr ''Rating saved''), (''average'', JFloat (Finite 3)),
                              (''count'', JInt 1)], 200), d1)
              \<and> rate_course t2 \<lparr>rate_course_id = Some c, rate_rating = JInt 5\<rparr> u d1 =
                  (Inr (JObj [(''message'', JStr ''Rating saved''), (''average'', JFloat (Finite 5)),
                              (''count'', JInt 1)], 200), d2)
              \<and> filter (\<lambda>x. r_course_id x = c) (ratings d2) = [row]
              \<and> r_user_id row = cu_id u \<and> r_rating row = 5"
      using first second course2 by (intro exI [of _ ?d1] exI [of _ ?d2] exI [of _ "?new\<lparr>r_rating := 5, r_created_at := t2\<rparr>"]) simp
  qed
qed

theorem rate_course_upsert_witness:
  "length (filter (\<lambda>x. r_user_id x = cu_id (user_columns example_user) \<and> r_course_id x = ''c1'')
             (ratings example_db)) \<le> 1
   \<and> list_all (\<lambda>(now, r). 1 \<le> r \<and> r \<le> 5) [(2000, 3), (3000, 5 :: int)]
   \<and> filter (\<lambda>x. r_course_id x = ''c1'') (ratings example_db) = []
   \<and> (\<exists>row. filter (\<lambda>x. r_user_id x = cu_id (user_columns example_user) \<and> r_course_id x = ''c1'')
                 (ratings (rate_many (user_columns example_user) ''c1'' [(2000, 3), (3000, 5)] example_db)) = [row]
              \<and> r_rating row = 5)
   \<and> (\<exists>d1 d2 row.
          rate_course 2000 \<lparr>rate_course_id = Some ''c1'', rate_rating = JInt 3\<rparr> (user_columns example_user) example_db =
            (Inr (JObj [(''message'', JStr ''Rating saved''), (''average'', JFloat (Finite 3)),
                        (''count'', JInt 1)], 200), d1)
        \<and> rate_course 3000 \<lparr>rate_course_id = Some ''c1'', rate_rating = JInt 5\<rparr> (user_columns example_user) d1 =
            (Inr (JObj [(''message'', JStr ''Rating saved''), (''average'', JFloat (Finite 5)),
                        (''count'', JInt 1)], 200), d2)
        \<and> filter (\<lambda>x. r_course_id x = ''c1'') (ratings d2) = [row]
        \<and> r_user_id row = cu_id (user_columns example_user) \<and> r_rating row = 5)"
proof -
  have a: "''c1'' \<noteq> []" by simp
  have b: "length (filter (\<lambda>x. r_user_id x = cu_id (user_columns example_user) \<and> r_course_id x = ''c1'')
             (ratings example_db)) \<le> 1"
    by (simp add: example_db_def)
  have c: "[(2000, 3), (3000, 5 :: int)] \<noteq> []" by simp
  have d: "list_all (\<lambda>(now, r). 1 \<le> r \<and> r \<le> 5) [(2000, 3), (3000, 5 :: int)]" by simp
  have e: "filter (\<lambda>x. r_course_id x = ''c1'') (ratings example_db) = []"
    by (simp add: example_db_def)
  show ?thesis
    using b d e rate_course_upsert [OF a b c d, of 2000 3000]
    by simp
qed

section \<open>Validation of ratings\<close>

text \<open>
  What the validation of \<^verbatim>\<open>rate_course\<close> does achieve: whenever the coercion
  \<^verbatim>\<open>int(rating or 0)\<close> returns, a missing course id or a value outside 1..5 is
  answered with 400 and nothing is written.
\<close>

lemma rate_course_rejects:
  assumes "py_int (py_or (rate_rating data) (JInt 0)) = Inr r"
    and "or_empty (rate_course_id data) = [] \<or> r < 1 \<or> 5 < r"
  shows "rate_course now data u d =
           (Inr (error_body ''Invalid course_id or rating (1-5 required)'', 400), d)"
  using assms by (auto simp add: rate_course_def)

text \<open>A missing rating counts as 0 and is rejected.\<close>

lemma rate_course_missing_rating:
  "rate_course now \<lparr>rate_course_id = cid, rate_rating = JNull\<rparr> u d =
     (Inr (error_body ''Invalid course_id or rating (1-5 required)'', 400), d)"
  by (simp add: rate_course_def py_or_def)

text \<open>The coercion truncates: the rating 3.5 is stored as 3.\<close>

lemma rate_course_fraction:
  "rate_course 2000 \<lparr>rate_course_id = Some ''c1'', rate_rating = JFloat (Finite (7 / 2))\<rparr>
       (user_columns example_user) example_db =
     (Inr (JObj [(''message'', JStr ''Rating saved''), (''average'', JFloat (Finite 3)),
                 (''count'', JInt 1)], 200),
      example_db\<lparr>ratings := [\<lparr>r_id = 1, r_user_id = 1, r_course_id = ''c1'', r_rating = 3,
                                r_created_at = 2000\<rparr>]\<rparr>)"
  by code_simp

text \<open>
  C4. The claim asks for a 400 answer for every rating that is not an integer in
  1..5, non-numeric values included. For a rating that is text but not a number
  the coercion raises \<^verbatim>\<open>ValueError\<close>, which nothing catches: the request ends in
  an internal server error (500), with nothing written.
\<close>

theorem rate_course_non_numeric:
  "rate_course now \<lparr>rate_course_id = Some ''c1'', rate_rating = JStr ''abc''\<rparr> u d = (Inl ValueError, d)"
proof -
  have "int_of_str ''abc'' = Inl ValueError"
    by (simp add: int_of_str_def strip_def is_space_def parse_nat_def is_digit_def)
  then show ?thesis
    by (simp add: rate_course_def py_or_def)
qed

section \<open>Credentials\<close>





section \<open>Registration\<close>

lemma lower_empty: "lower s = [] \<longleftrightarrow> s = []"
  by (simp add: lower_def)

lemma select_user_insert_fresh:
  fixes row :: user_row
  assumes "u_id row = next_rowid (map u_id (users d))"
  shows "select_user_by_id (d\<lparr>users := users d @ [row]\<rparr>) (u_id row) = Some (user_columns row)"
    and "select_user_by_id d (u_id row) = None"
proof -
  have "u_id row \<notin> set (map u_id (users d))"
    unfolding assms by (rule next_rowid_fresh)
  then have none: "\<forall>x \<in> set (users d). \<not> u_id x = u_id row"
    by (metis imageI list.set_map)
  then have "find (\<lambda>x. u_id x = u_id row) (users d @ [row]) = Some row"
    by (simp add: find_append_none)
  then show "select_user_by_id (d\<lparr>users := users d @ [row]\<rparr>) (u_id row) = Some (user_columns row)"
    by (simp add: select_user_by_id_def)
  from none have "find (\<lambda>x. u_id x = u_id row) (users d) = None"
    by (simp add: find_None_iff)
  then show "select_user_by_id d (u_id row) = None"
    by (simp add: select_user_by_id_def)
qed

lemma register_accepts:
  assumes "strip (or_empty (reg_username data)) \<noteq> []"
    and "strip (or_empty (reg_email data)) \<noteq> []"
    and "6 \<le> length (or_empty (reg_password data))"
    and "\<not> list_ex (\<lambda>x. u_email x = lower (strip (or_empty (reg_email data)))
                       \<or> u_username x = strip (or_empty (reg_username data))) (users d)"
  shows "register E now salt data d =
           (Inr (JObj [(''token'', JStr (make_token E now (next_rowid (map u_id (users d))) (60 * 24 * 7))),
                       (''user'', JObj (user_dict (user_columns (new_user_row E now salt data d))))], 200),
            d\<lparr>users := users d @ [new_user_row E now salt data d]\<rparr>)"
proof -
  let ?row = "new_user_row E now salt data d"
  have id: "u_id ?row = next_rowid (map u_id (users d))" by (simp add: new_user_row_def)
  have sel: "select_user_by_id (d\<lparr>users := users d @ [?row]\<rparr>) (next_rowid (map u_id (users d)))
               = Some (user_columns ?row)"
    using select_user_insert_fresh(1) [OF id] by (simp add: id)
  have nox: "select_user_by_email_or_username d (lower (strip (or_empty (reg_email data))))
               (strip (or_empty (reg_username data))) = None"
    using assms(4) by (simp add: select_user_by_email_or_username_def find_None_list_ex)
  have "\<not> list_ex (\<lambda>x. u_username x = strip (or_empty (reg_username data))
                       \<or> u_email x = lower (strip (or_empty (reg_email data)))) (users d)"
    using assms(4) by (auto simp add: list_ex_iff)
  then have ins: "insert_user d (strip (or_empty (reg_username data)))
                    (lower (strip (or_empty (reg_email data))))
                    (generate_password_hash E salt (or_empty (reg_password data))) now
                  = Inr (d\<lparr>users := users d @ [?row]\<rparr>, next_rowid (map u_id (users d)))"
    by (simp add: insert_user_def new_user_row_def Let_def)
  have pw: "or_empty (reg_password data) \<noteq> []" using assms(3) by auto
  show ?thesis
    using assms(1,2,3) pw
    by (simp add: register_def Let_def lower_empty nox ins sel)
qed

lemma register_success:
  assumes "register E now salt data d = (Inr (body, 200), d')"
  shows "strip (or_empty (reg_username data)) \<noteq> []
       \<and> strip (or_empty (reg_email data)) \<noteq> []
       \<and> 6 \<le> length (or_empty (reg_password data))
       \<and> \<not> list_ex (\<lambda>x. u_email x = lower (strip (or_empty (reg_email data)))
                       \<or> u_username x = strip (or_empty (reg_username data))) (users d)"
proof -
  have 1: "\<not> (strip (or_empty (reg_username data)) = [] \<or> lower (strip (or_empty (reg_email data))) = []
            \<or> or_empty (reg_password data) = [] \<or> length (or_empty (reg_password data)) < 6)"
    using assms by (auto simp add: register_def Let_def error_body_def)
  then have 2: "select_user_by_email_or_username d (lower (strip (or_empty (reg_email data))))
               (strip (or_empty (reg_username data))) = None"
    using assms by (auto simp add: register_def Let_def error_body_def split: option.splits)
  from 1 2 show ?thesis
    by (simp add: lower_empty select_user_by_email_or_username_def find_None_list_ex)
qed




text \<open>
  C10. A successful registration answers with a token and the user record. The
  token is the one issued at the clock of the request for the id of the new row,
  and, as long as the library decodes what it encoded, it verifies to that id at
  every clock within the next 7 days. The user record is the new row: it did not
  exist before, has 0 points and a positive id (so the guard accepts the token),
  and carries no \<^verbatim>\<open>password_hash\<close> entry.
\<close>

theorem register_issues_token:
  assumes "register E now salt data d = (Inr (body, 200), d')"
  shows "\<exists>token u.
           body = JObj [(''token'', JStr token), (''user'', JObj (user_dict u))]
         \<and> token = make_token E now (cu_id u) (60 * 24 * 7)
         \<and> (decodes_as_encoded E (token_payload now (cu_id u) (60 * 24 * 7)) \<longrightarrow>
              (\<forall>t. t < now + 604800 \<longrightarrow> verify_token E t token = Some (cu_id u)))
         \<and> select_user_by_id d (cu_id u) = None
         \<and> select_user_by_id d' (cu_id u) = Some u
         \<and> cu_points u = 0
         \<and> map_of (user_dict u) ''password_hash'' = None
         \<and> 0 < cu_id u"
proof -
  let ?row = "new_user_row E now salt data d"
  let ?u = "user_columns ?row"
  let ?token = "make_token E now (next_rowid (map u_id (users d))) (60 * 24 * 7)"
  have id: "u_id ?row = next_rowid (map u_id (users d))" by (simp add: new_user_row_def)
  then have cid: "cu_id ?u = next_rowid (map u_id (users d))" by (simp add: user_columns_def)
  from register_success [OF assms] have "register E now salt data d =
           (Inr (JObj [(''token'', JStr ?token), (''user'', JObj (user_dict ?u))], 200),
            d\<lparr>users := users d @ [?row]\<rparr>)"
    by (intro register_accepts) simp_all
  with assms have body: "body = JObj [(''token'', JStr ?token), (''user'', JObj (user_dict ?u))]"
    and d': "d' = d\<lparr>users := users d @ [?row]\<rparr>"
    by simp_all
  have new: "select_user_by_id d (cu_id ?u) = None"
    using select_user_insert_fresh(2) [OF id] by (simp add: cid id)
  have sel: "select_user_by_id d' (cu_id ?u) = Some ?u"
    using select_user_insert_fresh(1) [OF id] by (simp add: cid id d')
  have pts: "cu_points ?u = 0" by (simp add: user_columns_def new_user_row_def)
  have nohash: "map_of (user_dict ?u) ''password_hash'' = None" by (simp add: user_dict_def)
  have ver: "decodes_as_encoded E (token_payload now (cu_id ?u) (60 * 24 * 7)) \<longrightarrow>
              (\<forall>t. t < now + 604800 \<longrightarrow> verify_token E t ?token = Some (cu_id ?u))"
    by (simp add: cid verify_make_token)
  have pos: "0 < cu_id ?u"
    using fold_max_bounds [of 0 "map u_id (users d)"] by (simp add: cid next_rowid_def)
  show ?thesis
    using body new sel pts nohash ver cid pos
    by (intro exI [of _ ?token] exI [of _ ?u]) simp
qed

lemma example_register:
  "register example_env 1000 ''salt'' example_registration init_db =
     (Inr (JObj [(''token'', JStr ''1.k1''),
                 (''user'', JObj [(''id'', JInt 1), (''username'', JStr ''alice''),
                                  (''email'', JStr ''alice@example.org''), (''points'', JInt 0)])], 200),
      example_db)"
  by code_simp


theorem register_issues_token_witness:
  "register example_env 1000 ''salt'' example_registration init_db =
     (Inr (JObj [(''token'', JStr ''1.k1''),
                 (''user'', JObj [(''id'', JInt 1), (''username'', JStr ''alice''),
                                  (''email'', JStr ''alice@example.org''), (''points'', JInt 0)])], 200),
      example_db)
   \<and> (\<exists>u. JObj [(''id'', JInt 1), (''username'', JStr ''alice''),
                 (''email'', JStr ''alice@example.org''), (''points'', JInt 0)] = JObj (user_dict u)
          \<and> ''1.k1'' = make_token example_env 1000 (cu_id u) (60 * 24 * 7)
          \<and> select_user_by_id init_db (cu_id u) = None
          \<and> select_user_by_id example_db (cu_id u) = Some u
          \<and> cu_points u = 0
          \<and> map_of (user_dict u) ''password_hash'' = None)
   \<and> verify_token example_env 605799 ''1.k1'' = Some 1"
proof -
  from register_issues_token [OF example_register]
  obtain token u where u: "JObj [(''token'', JStr ''1.k1''),
                 (''user'', JObj [(''id'', JInt 1), (''username'', JStr ''alice''),
                                  (''email'', JStr ''alice@example.org''), (''points'', JInt 0)])]
        = JObj [(''token'', JStr token), (''user'', JObj (user_dict u))]"
      "token = make_token example_env 1000 (cu_id u) (60 * 24 * 7)"
      "decodes_as_encoded example_env (token_payload 1000 (cu_id u) (60 * 24 * 7)) \<longrightarrow>
              (\<forall>t. t < 1000 + 604800 \<longrightarrow> verify_token example_env t token = Some (cu_id u))"
      "select_user_by_id init_db (cu_id u) = None"
      "select_user_by_id example_db (cu_id u) = Some u"
      "cu_points u = 0"
      "map_of (user_dict u) ''password_hash'' = None"
    by blast
  from u(1) have t: "token = ''1.k1''" and id: "cu_id u = 1"
    by (simp_all add: user_dict_def)
  from u(3) ex_decodes have "verify_token example_env 605799 ''1.k1'' = Some 1"
    by (simp add: t id)
  moreover have "\<exists>u. JObj [(''id'', JInt 1), (''username'', JStr ''alice''),
                 (''email'', JStr ''alice@example.org''), (''points'', JInt 0)] = JObj (user_dict u)
          \<and> ''1.k1'' = make_token example_env 1000 (cu_id u) (60 * 24 * 7)
          \<and> select_user_by_id init_db (cu_id u) = None
          \<and> select_user_by_id example_db (cu_id u) = Some u
          \<and> cu_points u = 0
          \<and> map_of (user_dict u) ''password_hash'' = None"
    using u t by (intro exI [of _ u]) simp
  ultimately show ?thesis using example_register by simp
qed

section \<open>The course listing\<close>











section \<open>Completion is idempotent\<close>

lemma guarded_complete_effect:
  "snd (auth_required E now (complete_course now data) authorization d) = d
   \<or> (\<exists>uid cid. snd (auth_required E now (complete_course now data) authorization d) =
         update_points (d\<lparr>completions := completions d @
             [\<lparr>c_id = next_rowid (map c_id (completions d)), c_user_id = uid,
               c_course_id = cid, c_completed_at = now\<rparr>]\<rparr>) 100 uid)"
proof -
  obtain r d' where h: "auth_required E now (complete_course now data) authorization d = (r, d')"
    by (cases "auth_required E now (complete_course now data) authorization d")
  from auth_required_cases [OF h] consider "d' = d"
    | u where "complete_course now data u d = (r, d')"
    by blast
  then have "d' = d
   \<or> (\<exists>uid cid. d' =
         update_points (d\<lparr>completions := completions d @
             [\<lparr>c_id = next_rowid (map c_id (completions d)), c_user_id = uid,
               c_course_id = cid, c_completed_at = now\<rparr>]\<rparr>) 100 uid)"
  proof cases
    case 1
    then show ?thesis by simp
  next
    case 2
    then have e: "snd (complete_course now data u d) = d'" by simp
    from complete_course_effect [of now data u d] show ?thesis unfolding e by blast
  qed
  with h show ?thesis by simp
qed

lemma handle_completions_grow:
  "set (completions d) \<subseteq> set (completions (snd (handle E catalog req d)))"
proof (cases req)
  case (Register now salt data)
  from register_effect [of E now salt data d]
  have "completions (snd (register E now salt data d)) = completions d" by auto
  with Register show ?thesis by simp
next
  case (Login now data)
  then show ?thesis by (simp add: login_effect)
next
  case (Me now authorization)
  then show ?thesis by (simp add: guarded_me_effect)
next
  case (Complete_course now authorization data)
  from guarded_complete_effect [of E now data authorization d]
  have "set (completions d)
          \<subseteq> set (completions (snd (auth_required E now (complete_course now data) authorization d)))"
    by (auto simp add: update_points_def)
  with Complete_course show ?thesis by simp
next
  case (Rate_course now authorization data)
  then show ?thesis using guarded_rate_effect [of E now data authorization d] by simp
next
  case (Courses now authorization)
  then show ?thesis by (simp add: courses_effect)
qed

lemma run_completions_grow:
  "set (completions d) \<subseteq> set (completions (run E catalog reqs d))"
proof (induction reqs arbitrary: d)
  case Nil
  then show ?case by simp
next
  case (Cons req reqs)
  have "set (completions d) \<subseteq> set (completions (snd (handle E catalog req d)))"
    by (rule handle_completions_grow)
  also have "\<dots> \<subseteq> set (completions (run E catalog reqs (snd (handle E catalog req d))))"
    by (rule Cons.IH)
  finally show ?case by simp
qed

lemma select_completion_found:
  "select_completion d uid c \<noteq> None \<longleftrightarrow>
     (\<exists>r \<in> set (completions d). c_user_id r = uid \<and> c_course_id r = c)"
  by (auto simp add: select_completion_def find_None_iff)

lemma run_keeps_completion:
  assumes "select_completion d uid c \<noteq> None"
  shows "select_completion (run E catalog reqs d) uid c \<noteq> None"
  using assms run_completions_grow [of d E catalog reqs]
  unfolding select_completion_found by blast

text \<open>
  C1. Completion is idempotent. For the user \<open>u\<close> the guard loaded and a course \<open>c\<close>
  that \<open>u\<close> has not completed, the first call inserts one completion row, answers
  with \<^verbatim>\<open>points_awarded\<close> 100 and raises the user's points by 100; a second call
  for the same user and course (with the user row as the guard loads it then)
  answers "Already completed", awards nothing and leaves the database, and so the
  points, as they were: two calls add 100 points, not 200. The same holds for
  every later call, whatever requests have been served in between.
\<close>

theorem complete_course_idempotent:
  assumes "select_user_by_id d uid = Some u" and "c \<noteq> []" and "select_completion d uid c = None"
  shows "\<exists>r1 d1 u1 r2 d2.
           complete_course now \<lparr>complete_course_id = Some c\<rparr> u d = (r1, d1)
         \<and> r1 = Inr (JObj [(''message'', JStr ''Course completed''), (''points_awarded'', JInt 100),
                            (''user'', JObj (user_dict u1))], 200)
         \<and> spec_awarded r1 \<and> spec_points_awarded r1 = 100
         \<and> length (filter (\<lambda>r. c_user_id r = uid \<and> c_course_id r = c) (completions d1)) = 1
         \<and> select_user_by_id d1 uid = Some u1 \<and> cu_points u1 = cu_points u + 100
         \<and> complete_course now' \<lparr>complete_course_id = Some c\<rparr> u1 d1 = (r2, d2)
         \<and> r2 = Inr (JObj [(''message'', JStr ''Already completed''), (''user'', JObj (user_dict u1))], 200)
         \<and> \<not> spec_awarded r2 \<and> spec_points_awarded r2 = 0
         \<and> d2 = d1
         \<and> (\<forall>E catalog reqs t u'.
               select_user_by_id (run E catalog reqs d1) uid = Some u' \<longrightarrow>
               complete_course t \<lparr>complete_course_id = Some c\<rparr> u' (run E catalog reqs d1) =
                 (Inr (JObj [(''message'', JStr ''Already completed''), (''user'', JObj (user_dict u'))], 200),
                  run E catalog reqs d1))"
proof -
  let ?d1 = "update_points (d\<lparr>completions := completions d @
              [\<lparr>c_id = next_rowid (map c_id (completions d)), c_user_id = uid,
                c_course_id = c, c_completed_at = now\<rparr>]\<rparr>) 100 uid"
  let ?u1 = "u\<lparr>cu_points := cu_points u + 100\<rparr>"
  let ?r1 = "Inr (JObj [(''message'', JStr ''Course completed''), (''points_awarded'', JInt 100),
                       (''user'', JObj (user_dict ?u1))], 200) :: result"
  let ?r2 = "Inr (JObj [(''message'', JStr ''Already completed''), (''user'', JObj (user_dict ?u1))], 200) :: result"
  have id: "cu_id u = uid" using assms(1) by (rule select_user_by_id_cu_id)
  have first: "complete_course now \<lparr>complete_course_id = Some c\<rparr> u d = (?r1, ?d1)"
    using assms by (rule complete_course_first)
  have pre: "filter (\<lambda>r. c_user_id r = uid \<and> c_course_id r = c) (completions d) = []"
    using assms(3) by (simp add: select_completion_None)
  have rows: "length (filter (\<lambda>r. c_user_id r = uid \<and> c_course_id r = c) (completions ?d1)) = 1"
    using pre by (simp add: update_points_def)
  then have found: "select_completion ?d1 uid c \<noteq> None"
    by (auto simp add: select_completion_None)
  then have "select_completion ?d1 (cu_id ?u1) c \<noteq> None"
    using id by simp
  then have second: "complete_course now' \<lparr>complete_course_id = Some c\<rparr> ?u1 ?d1 = (?r2, ?d1)"
    using assms(2) by (intro complete_course_again)
  have "select_user_by_id (d\<lparr>completions := completions d @
              [\<lparr>c_id = next_rowid (map c_id (completions d)), c_user_id = uid,
                c_course_id = c, c_completed_at = now\<rparr>]\<rparr>) uid = Some u"
    using assms(1) by (simp add: select_user_by_id_def)
  then have sel: "select_user_by_id ?d1 uid = Some ?u1"
    by (simp add: select_user_update_points)
  have v1: "spec_awarded ?r1" "spec_points_awarded ?r1 = 100"
    by (simp_all add: spec_awarded_def spec_points_awarded_def)
  have v2: "\<not> spec_awarded ?r2" "spec_points_awarded ?r2 = 0"
    by (simp_all add: spec_awarded_def spec_points_awarded_def)
  have later: "\<forall>E catalog reqs t u'.
               select_user_by_id (run E catalog reqs ?d1) uid = Some u' \<longrightarrow>
               complete_course t \<lparr>complete_course_id = Some c\<rparr> u' (run E catalog reqs ?d1) =
                 (Inr (JObj [(''message'', JStr ''Already completed''), (''user'', JObj (user_dict u'))], 200),
                  run E catalog reqs ?d1)"
  proof (intro allI impI)
    fix E catalog reqs t u'
    assume "select_user_by_id (run E catalog reqs ?d1) uid = Some u'"
    then have "cu_id u' = uid" by (rule select_user_by_id_cu_id)
    moreover have "select_completion (run E catalog reqs ?d1) uid c \<noteq> None"
      using found by (rule run_keeps_completion)
    ultimately have "select_completion (run E catalog reqs ?d1) (cu_id u') c \<noteq> None" by simp
    with assms(2) show "complete_course t \<lparr>complete_course_id = Some c\<rparr> u' (run E catalog reqs ?d1) =
                 (Inr (JObj [(''message'', JStr ''Already completed''), (''user'', JObj (user_dict u'))], 200),
                  run E catalog reqs ?d1)"
      by (rule complete_course_again)
  qed
  show ?thesis
    using first rows sel second v1 v2 later
    by (intro exI [of _ ?r1] exI [of _ ?d1] exI [of _ ?u1] exI [of _ ?r2] exI [of _ ?d1]) simp
qed

theorem complete_course_idempotent_witness:
  "select_user_by_id example_db 1 = Some (user_columns example_user)
   \<and> select_completion example_db 1 ''c1'' = None
   \<and> (\<exists>d1 u1. snd (complete_course 2000 \<lparr>complete_course_id = Some ''c1''\<rparr> (user_columns example_user) example_db) = d1
         \<and> select_user_by_id d1 1 = Some u1 \<and> cu_points u1 = 100
         \<and> length (filter (\<lambda>r. c_user_id r = 1 \<and> c_course_id r = ''c1'') (completions d1)) = 1
         \<and> snd (complete_course 3000 \<lparr>complete_course_id = Some ''c1''\<rparr> u1 d1) = d1
         \<and> spec_points_awarded (fst (complete_course 3000 \<lparr>complete_course_id = Some ''c1''\<rparr> u1 d1)) = 0)"
proof -
  have a: "select_user_by_id example_db 1 = Some (user_columns example_user)"
    by (simp add: select_user_by_id_def example_db_def example_user_def)
  have b: "''c1'' \<noteq> []" by simp
  have c: "select_completion example_db 1 ''c1'' = None"
    by (simp add: select_completion_def example_db_def)
  have p: "cu_points (user_columns example_user) = 0"
    by (simp add: user_columns_def example_user_def)
  show ?thesis
    using a c p complete_course_idempotent [OF a b c, of 2000 3000]
    by auto
qed

section \<open>One rating per user and course\<close>

lemma distinct_keys_filter:
  "distinct (map f xs) \<Longrightarrow> length (filter (\<lambda>x. f x = k) xs) \<le> 1"
proof (induction xs)
  case Nil
  then show ?case by simp
next
  case (Cons x xs)
  show ?case
  proof (cases "f x = k")
    case True
    from Cons.prems have "f x \<notin> set (map f xs)" by simp
    then have "\<forall>y \<in> set xs. f y \<noteq> f x" by (metis imageI list.set_map)
    with True have "\<forall>y \<in> set xs. f y \<noteq> k" by simp
    then have "filter (\<lambda>x. f x = k) xs = []" by (simp add: filter_empty_conv)
    with True show ?thesis by simp
  next
    case False
    with Cons show ?thesis by simp
  qed
qed

lemma map_keys_unchanged: "(\<And>x. k (g x) = k x) \<Longrightarrow> map k (map g xs) = map k xs"
  by (induction xs) simp_all

lemma ratings_unique_one_row:
  assumes "ratings_unique d"
  shows "length (filter (\<lambda>x. r_user_id x = uid \<and> r_course_id x = c) (ratings d)) \<le> 1"
proof -
  have "length (filter (\<lambda>x. (r_user_id x, r_course_id x) = (uid, c)) (ratings d)) \<le> 1"
    using assms unfolding ratings_unique_def by (rule distinct_keys_filter)
  then show ?thesis by simp
qed

lemma rate_course_keeps_unique:
  assumes "ratings_unique d"
  shows "ratings_unique (snd (rate_course now data u d))"
proof (cases "py_int (py_or (rate_rating data) (JInt 0))")
  case (Inl e)
  then show ?thesis using assms by (simp add: rate_course_def)
next
  case (Inr rating)
  show ?thesis
  proof (cases "or_empty (rate_course_id data) = [] \<or> rating < 1 \<or> rating > 5")
    case True
    then show ?thesis using assms Inr by (auto simp add: rate_course_def)
  next
    case False
    show ?thesis
    proof (cases "select_rating d (cu_id u) (or_empty (rate_course_id data))")
      case None
      then have "\<forall>x \<in> set (ratings d). \<not> (r_user_id x = cu_id u \<and> r_course_id x = or_empty (rate_course_id data))"
        by (simp add: select_rating_def find_None_iff)
      then have new: "(cu_id u, or_empty (rate_course_id data)) \<notin> set (map (\<lambda>r. (r_user_id r, r_course_id r)) (ratings d))"
        by auto
      have "\<not> list_ex (\<lambda>r. r_user_id r = cu_id u \<and> r_course_id r = or_empty (rate_course_id data)) (ratings d)"
        using None by (simp add: select_rating_def find_None_list_ex)
      then show ?thesis
        using assms Inr False None new
        by (simp add: rate_course_def insert_rating_def ratings_unique_def Let_def)
    next
      case (Some rid)
      have keys: "map (\<lambda>r. (r_user_id r, r_course_id r))
                    (map (\<lambda>r. if r_id r = rid then r\<lparr>r_rating := rating, r_created_at := now\<rparr> else r) (ratings d))
                  = map (\<lambda>r. (r_user_id r, r_course_id r)) (ratings d)"
        by (rule map_keys_unchanged) simp
      have eq: "snd (rate_course now data u d) =
                  d\<lparr>ratings := map (\<lambda>r. if r_id r = rid then r\<lparr>r_rating := rating, r_created_at := now\<rparr> else r) (ratings d)\<rparr>"
        using Inr False Some by (simp add: rate_course_def update_rating_def Let_def)
      have sel: "ratings (d\<lparr>ratings := map (\<lambda>r. if r_id r = rid then r\<lparr>r_rating := rating, r_created_at := now\<rparr> else r) (ratings d)\<rparr>)
                  = map (\<lambda>r. if r_id r = rid then r\<lparr>r_rating := rating, r_created_at := now\<rparr> else r) (ratings d)"
        by simp
      show ?thesis
        unfolding eq ratings_unique_def sel keys
        using assms [unfolded ratings_unique_def] .
    qed
  qed
qed

lemma handle_keeps_ratings_unique:
  assumes "ratings_unique d"
  shows "ratings_unique (snd (handle E catalog req d))"
proof (cases req)
  case (Register now salt data)
  from register_effect [of E now salt data d]
  have "ratings (snd (register E now salt data d)) = ratings d" by auto
  with Register assms show ?thesis by (simp add: ratings_unique_def)
next
  case (Login now data)
  then show ?thesis using assms by (simp add: login_effect)
next
  case (Me now authorization)
  then show ?thesis using assms by (simp add: guarded_me_effect)
next
  case (Complete_course now authorization data)
  from guarded_complete_effect [of E now data authorization d]
  have "ratings (snd (auth_required E now (complete_course now data) authorization d)) = ratings d"
    by (auto simp add: update_points_def)
  with Complete_course assms show ?thesis by (simp add: ratings_unique_def)
next
  case (Rate_course now authorization data)
  obtain r d' where h: "auth_required E now (rate_course now data) authorization d = (r, d')"
    by (cases "auth_required E now (rate_course now data) authorization d")
  from auth_required_cases [OF h] consider "d' = d"
    | u where "rate_course now data u d = (r, d')"
    by blast
  then have "ratings_unique d'"
  proof cases
    case 1
    with assms show ?thesis by simp
  next
    case 2
    then have "d' = snd (rate_course now data u d)" by simp
    then show ?thesis using rate_course_keeps_unique [OF assms] by simp
  qed
  with h Rate_course show ?thesis by simp
next
  case (Courses now authorization)
  then show ?thesis using assms by (simp add: courses_effect)
qed

text \<open>
  The program keeps the constraint by itself: in every database that a sequence
  of requests leads to from the empty one, no user has two rating rows for one
  course.
\<close>

lemma run_keeps_ratings_unique:
  "ratings_unique d \<Longrightarrow> ratings_unique (run E catalog reqs d)"
proof (induction reqs arbitrary: d)
  case Nil
  then show ?case by simp
next
  case (Cons req reqs)
  have "ratings_unique (snd (handle E catalog req d))"
    using Cons.prems by (rule handle_keeps_ratings_unique)
  then have "ratings_unique (run E catalog reqs (snd (handle E catalog req d)))"
    by (rule Cons.IH)
  then show ?case by simp
qed

lemma reachable_one_rating_row:
  "length (filter (\<lambda>x. r_user_id x = uid \<and> r_course_id x = c)
             (ratings (run E catalog reqs init_db))) \<le> 1"
proof -
  have "ratings_unique init_db" by (simp add: ratings_unique_def init_db_def)
  then have "ratings_unique (run E catalog reqs init_db)" by (rule run_keeps_ratings_unique)
  then show ?thesis by (rule ratings_unique_one_row)
qed

end
